theory Spec2Isabelle
  imports Complex_Main "HOL-Library.Signed_Division"
begin

section \<open>Data model (window-manager.tsx)\<close>

text \<open>
  JavaScript numbers that carry geometry are modelled as \<^typ>\<open>real\<close> (the tile
  arrangement divides and takes a square root); the stacking order, which the code only
  ever increments or copies from a list index, is an \<^typ>\<open>int\<close>.  A point
  \<open>{x, y}\<close> and an extent \<open>{width, height}\<close> are pairs.  React components, props
  objects and icon nodes are never inspected by the manager: they are values of a type
  parameter.
\<close>

type_synonym point = "real \<times> real"
type_synonym extent = "real \<times> real"

datatype window_type = terminal | browser | editor | monitor | custom

record 'a WindowState =
  id_w :: string
  title :: string
  component :: 'a
  props :: "'a option"
  position :: point
  size_w :: extent
  isMinimized :: bool
  isMaximized :: bool
  zIndex :: int
  icon :: "'a option"
  type_w :: window_type

text \<open>\<open>Partial<WindowState>\<close>: every key may be absent.\<close>

record 'a WindowOptions =
  o_id :: "string option"
  o_title :: "string option"
  o_component :: "'a option"
  o_props :: "'a option"
  o_position :: "point option"
  o_size :: "extent option"
  o_isMinimized :: "bool option"
  o_isMaximized :: "bool option"
  o_zIndex :: "int option"
  o_icon :: "'a option"
  o_type :: "window_type option"

definition no_options :: "'a WindowOptions" where
  "no_options = \<lparr>o_id = None, o_title = None, o_component = None, o_props = None,
     o_position = None, o_size = None, o_isMinimized = None, o_isMaximized = None,
     o_zIndex = None, o_icon = None, o_type = None\<rparr>"

record 'a LayoutPreset =
  name :: string
  preset_icon :: 'a
  preset_windows :: "'a WindowOptions list"

text \<open>The two \<open>useState\<close> cells of the manager that the operations touch, and the menu flag.\<close>

record 'a manager =
  windows :: "'a WindowState list"
  nextZIndex :: int
  showLayoutMenu :: bool

definition initial :: "'a manager" where
  "initial = \<lparr>windows = [], nextZIndex = 1, showLayoutMenu = False\<rparr>"

section \<open>Manager operations\<close>

text \<open>The object spread \<open>...options\<close>, applied last in the literal of \<open>newWindow\<close>.\<close>

definition spread :: "'a WindowOptions \<Rightarrow> 'a WindowState \<Rightarrow> 'a WindowState" where
  "spread opts w = w\<lparr>
     id_w := (case o_id opts of None \<Rightarrow> id_w w | Some v \<Rightarrow> v),
     title := (case o_title opts of None \<Rightarrow> title w | Some v \<Rightarrow> v),
     component := (case o_component opts of None \<Rightarrow> component w | Some v \<Rightarrow> v),
     props := (case o_props opts of None \<Rightarrow> props w | Some v \<Rightarrow> Some v),
     position := (case o_position opts of None \<Rightarrow> position w | Some v \<Rightarrow> v),
     size_w := (case o_size opts of None \<Rightarrow> size_w w | Some v \<Rightarrow> v),
     isMinimized := (case o_isMinimized opts of None \<Rightarrow> isMinimized w | Some v \<Rightarrow> v),
     isMaximized := (case o_isMaximized opts of None \<Rightarrow> isMaximized w | Some v \<Rightarrow> v),
     zIndex := (case o_zIndex opts of None \<Rightarrow> zIndex w | Some v \<Rightarrow> v),
     icon := (case o_icon opts of None \<Rightarrow> icon w | Some v \<Rightarrow> Some v),
     type_w := (case o_type opts of None \<Rightarrow> type_w w | Some v \<Rightarrow> v)\<rparr>"

text \<open>
  \<open>createWindow\<close> is a \<open>useCallback\<close> over \<open>[windows.length, nextZIndex]\<close>: the body
  reads those two values as they were at the render that built the callback
  (\<open>len\<close>, \<open>nxt\<close>), while the two state setters are functional updates on the state
  current when they run.  \<open>fresh\<close> stands for the string
  \<open>window-${Date.now()}-${Math.random()...}\<close> of this call.
\<close>

definition newWindow ::
  "nat \<Rightarrow> int \<Rightarrow> string \<Rightarrow> string \<Rightarrow> 'a \<Rightarrow> 'a WindowOptions \<Rightarrow> 'a WindowState" where
  "newWindow len nxt fresh ttl cmp opts =
     (let cascade = real len * 30;
          defaultPosition = (100 + cascade, 100 + cascade)
      in spread opts
           \<lparr>id_w = fresh, title = ttl, component = cmp, props = o_props opts,
            position = (case o_position opts of Some p \<Rightarrow> p | None \<Rightarrow> defaultPosition),
            size_w = (case o_size opts of Some sz \<Rightarrow> sz | None \<Rightarrow> (600, 400)),
            isMinimized = False, isMaximized = False, zIndex = nxt,
            icon = o_icon opts,
            type_w = (case o_type opts of Some ty \<Rightarrow> ty | None \<Rightarrow> custom)\<rparr>)"

definition createWindow_at ::
  "nat \<Rightarrow> int \<Rightarrow> string \<Rightarrow> string \<Rightarrow> 'a \<Rightarrow> 'a WindowOptions \<Rightarrow> 'a manager
     \<Rightarrow> string \<times> 'a manager" where
  "createWindow_at len nxt fresh ttl cmp opts s =
     (fresh, s\<lparr>windows := windows s @ [newWindow len nxt fresh ttl cmp opts],
               nextZIndex := nextZIndex s + 1\<rparr>)"

text \<open>A call from a click handler runs the callback of the latest render.\<close>

definition createWindow ::
  "string \<Rightarrow> string \<Rightarrow> 'a \<Rightarrow> 'a WindowOptions \<Rightarrow> 'a manager \<Rightarrow> string \<times> 'a manager" where
  "createWindow fresh ttl cmp opts s =
     createWindow_at (length (windows s)) (nextZIndex s) fresh ttl cmp opts s"

text \<open>
  \<open>focusWindow\<close> reads \<open>nextZIndex\<close> from its render as well; it is only ever called from
  a pointer-down on a window, after the latest render.
\<close>

definition focusWindow :: "string \<Rightarrow> 'a manager \<Rightarrow> 'a manager" where
  "focusWindow i s =
     s\<lparr>windows := map (\<lambda>w. w\<lparr>zIndex := (if id_w w = i then nextZIndex s else zIndex w)\<rparr>)
                    (windows s),
       nextZIndex := nextZIndex s + 1\<rparr>"

definition closeWindow :: "string \<Rightarrow> 'a manager \<Rightarrow> 'a manager" where
  "closeWindow i s = s\<lparr>windows := filter (\<lambda>w. id_w w \<noteq> i) (windows s)\<rparr>"

definition minimizeWindow :: "string \<Rightarrow> 'a manager \<Rightarrow> 'a manager" where
  "minimizeWindow i s =
     s\<lparr>windows := map (\<lambda>w. w\<lparr>isMinimized :=
                               (if id_w w = i then \<not> isMinimized w else isMinimized w)\<rparr>)
                    (windows s)\<rparr>"

definition maximizeWindow :: "string \<Rightarrow> 'a manager \<Rightarrow> 'a manager" where
  "maximizeWindow i s =
     s\<lparr>windows := map (\<lambda>w. w\<lparr>isMaximized :=
                               (if id_w w = i then \<not> isMaximized w else isMaximized w)\<rparr>)
                    (windows s)\<rparr>"

definition updateWindowPosition :: "string \<Rightarrow> point \<Rightarrow> 'a manager \<Rightarrow> 'a manager" where
  "updateWindowPosition i p s =
     s\<lparr>windows := map (\<lambda>w. w\<lparr>position := (if id_w w = i then p else position w)\<rparr>)
                    (windows s)\<rparr>"

definition updateWindowSize :: "string \<Rightarrow> extent \<Rightarrow> 'a manager \<Rightarrow> 'a manager" where
  "updateWindowSize i sz s =
     s\<lparr>windows := map (\<lambda>w. w\<lparr>size_w := (if id_w w = i then sz else size_w w)\<rparr>)
                    (windows s)\<rparr>"

subsection \<open>Layout presets\<close>

text \<open>
  The three presets of the manager.  Icons (\<open><FileText className=.../>\<close> and the like)
  are named by strings here; the \<open>Tiled\<close> entries carry no icon.
\<close>

definition preset_entry ::
  "string \<Rightarrow> extent \<Rightarrow> point \<Rightarrow> window_type \<Rightarrow> string option \<Rightarrow> string WindowOptions" where
  "preset_entry ttl sz pos ty ic =
     no_options\<lparr>o_title := Some ttl, o_size := Some sz, o_position := Some pos,
                o_type := Some ty, o_icon := ic\<rparr>"

definition Development :: "string LayoutPreset" where
  "Development = \<lparr>name = ''Development'', preset_icon = ''Code'', preset_windows =
     [preset_entry ''Code Editor'' (800, 600) (50, 50) editor (Some ''FileText''),
      preset_entry ''Terminal'' (600, 300) (50, 670) terminal (Some ''Terminal''),
      preset_entry ''Globe'' (500, 600) (870, 50) browser (Some ''Globe'')]\<rparr>"

definition Monitoring :: "string LayoutPreset" where
  "Monitoring = \<lparr>name = ''Monitoring'', preset_icon = ''Monitor'', preset_windows =
     [preset_entry ''System Monitor'' (600, 400) (50, 50) monitor (Some ''Monitor''),
      preset_entry ''Environment Status'' (600, 400) (670, 50) monitor (Some ''Monitor''),
      preset_entry ''Logs'' (1220, 300) (50, 470) terminal (Some ''Terminal'')]\<rparr>"

definition Tiled :: "string LayoutPreset" where
  "Tiled = \<lparr>name = ''Tiled'', preset_icon = ''Grid3X3'', preset_windows =
     [preset_entry ''Top Left'' (640, 360) (50, 50) custom None,
      preset_entry ''Top Right'' (640, 360) (710, 50) custom None,
      preset_entry ''Bottom Left'' (640, 360) (50, 430) custom None,
      preset_entry ''Bottom Right'' (640, 360) (710, 430) custom None]\<rparr>"

definition layoutPresets :: "string LayoutPreset list" where
  "layoutPresets = [Development, Monitoring, Tiled]"

text \<open>Decimal rendering of the template literal \<open>Window ${index + 1}\<close>.\<close>

definition digit :: "nat \<Rightarrow> char" where
  "digit d = char_of (d + 48)"

fun decimal :: "nat \<Rightarrow> string \<Rightarrow> string" where
  "decimal n acc =
     (if n < 10 then digit n # acc else decimal (n div 10) (digit (n mod 10) # acc))"

declare decimal.simps [simp del]

definition preset_title :: "nat \<Rightarrow> 'a WindowOptions \<Rightarrow> string" where
  "preset_title index windowConfig =
     (case o_title windowConfig of
        Some t \<Rightarrow> if t = [] then ''Window '' @ decimal (index + 1) [] else t
      | None \<Rightarrow> ''Window '' @ decimal (index + 1) [])"

text \<open>
  \<open>applyLayoutPreset\<close> first clears the list, then, from a 100 ms timer, calls
  \<open>createWindow\<close> once per entry.  The \<open>createWindow\<close> it calls is the one captured when
  \<open>applyLayoutPreset\<close> itself was built (dependency list \<open>[createWindow]\<close>), so every call
  of the loop reads the same \<open>windows.length\<close> and \<open>nextZIndex\<close>: those of the render in
  which the preset was chosen.  \<open>placeholder\<close> is the content component built from an
  entry; \<open>gen k\<close> is the id string generated by the \<open>k\<close>-th call of the loop.
\<close>

fun preset_forEach ::
  "('a WindowOptions \<Rightarrow> 'a) \<Rightarrow> nat \<Rightarrow> int \<Rightarrow> (nat \<Rightarrow> string) \<Rightarrow> nat
     \<Rightarrow> 'a WindowOptions list \<Rightarrow> 'a manager \<Rightarrow> 'a manager" where
  "preset_forEach placeholder len nxt gen index [] s = s"
| "preset_forEach placeholder len nxt gen index (windowConfig # rest) s =
     preset_forEach placeholder len nxt gen (Suc index) rest
       (snd (createWindow_at len nxt (gen index) (preset_title index windowConfig)
               (placeholder windowConfig) windowConfig s))"

definition applyLayoutPreset_clear :: "'a manager \<Rightarrow> 'a manager" where
  "applyLayoutPreset_clear s = s\<lparr>windows := []\<rparr>"

definition applyLayoutPreset_timeout ::
  "('a WindowOptions \<Rightarrow> 'a) \<Rightarrow> nat \<Rightarrow> int \<Rightarrow> (nat \<Rightarrow> string) \<Rightarrow> 'a LayoutPreset
     \<Rightarrow> 'a manager \<Rightarrow> 'a manager" where
  "applyLayoutPreset_timeout placeholder len nxt gen preset s =
     (preset_forEach placeholder len nxt gen 0 (preset_windows preset) s)
       \<lparr>showLayoutMenu := False\<rparr>"

text \<open>The whole operation when no other event arrives before the timer fires.\<close>

definition applyLayoutPreset ::
  "('a WindowOptions \<Rightarrow> 'a) \<Rightarrow> (nat \<Rightarrow> string) \<Rightarrow> 'a LayoutPreset \<Rightarrow> 'a manager
     \<Rightarrow> 'a manager" where
  "applyLayoutPreset placeholder gen preset s =
     applyLayoutPreset_timeout placeholder (length (windows s)) (nextZIndex s) gen preset
       (applyLayoutPreset_clear s)"

subsection \<open>Arrangements\<close>

datatype arrangement = cascade | tile | stack

text \<open>\<open>Array.prototype.findIndex\<close>: the first index whose element passes, else \<open>-1\<close>.\<close>

fun findIndex :: "('a \<Rightarrow> bool) \<Rightarrow> 'a list \<Rightarrow> int" where
  "findIndex P [] = - 1"
| "findIndex P (x # xs) =
     (if P x then 0 else (let r = findIndex P xs in if r = - 1 then - 1 else r + 1))"

text \<open>
  \<open>arrangeWindows\<close> is rebuilt whenever \<open>windows\<close> changes and is run from a toolbar
  click, so the list it filters into \<open>visibleWindows\<close> is the list its setter maps over.
  The viewport is \<open>(window.innerWidth, window.innerHeight)\<close>.  JavaScript's \<open>%\<close> is the
  truncating remainder \<open>smod\<close>; \<open>Math.floor(a / b)\<close> on integers is \<open>\<lfloor>a / b\<rfloor>\<close>.  With
  no visible window \<open>cols\<close> is \<open>0\<close> and the quotients are \<open>Infinity\<close> or \<open>NaN\<close> in
  JavaScript, \<open>0\<close> here; no window reads them in that case.
\<close>

definition tile_cols :: "nat \<Rightarrow> int" where
  "tile_cols n = \<lceil>sqrt (real n)\<rceil>"

definition tile_rows :: "nat \<Rightarrow> int" where
  "tile_rows n = \<lceil>real n / real_of_int (tile_cols n)\<rceil>"

definition arrangeWindows :: "real \<times> real \<Rightarrow> arrangement \<Rightarrow> 'a manager \<Rightarrow> 'a manager" where
  "arrangeWindows viewport arr s =
     (let visibleWindows = filter (\<lambda>w. \<not> isMinimized w) (windows s)
      in case arr of
        cascade \<Rightarrow>
          s\<lparr>windows := map (\<lambda>(index, w).
                 w\<lparr>position := (50 + real index * 30, 50 + real index * 30),
                   size_w := (600, 400),
                   isMaximized := False\<rparr>) (enumerate 0 (windows s))\<rparr>
      | tile \<Rightarrow>
          (let containerWidth = fst viewport - 100;
               containerHeight = snd viewport - 150;
               cols = tile_cols (length visibleWindows);
               rows = tile_rows (length visibleWindows);
               windowWidth = containerWidth / real_of_int cols;
               windowHeight = containerHeight / real_of_int rows
           in s\<lparr>windows := map (\<lambda>w.
                 if isMinimized w then w
                 else (let visibleIndex = findIndex (\<lambda>v. id_w v = id_w w) visibleWindows;
                           col = visibleIndex smod cols;
                           row = \<lfloor>real_of_int visibleIndex / real_of_int cols\<rfloor>
                       in w\<lparr>position := (50 + real_of_int col * windowWidth,
                                         50 + real_of_int row * windowHeight),
                            size_w := (windowWidth - 10, windowHeight - 10),
                            isMaximized := False\<rparr>)) (windows s)\<rparr>)
      | stack \<Rightarrow>
          s\<lparr>windows := map (\<lambda>(index, w).
                 w\<lparr>position := (100, 100),
                   size_w := (800, 600),
                   isMaximized := False,
                   zIndex := int index + 1\<rparr>) (enumerate 0 (windows s))\<rparr>)"

section \<open>The window component (resizable-window.tsx)\<close>

text \<open>
  The props the geometry code reads, with the defaults of the parameter list already
  filled in, and the \<open>useState\<close> cells of one mounted window.  \<open>resizeStart\<close> is
  \<open>(x, y, width, height)\<close>.
\<close>

record WindowProps =
  p_id :: string
  initialPosition :: point
  initialSize :: extent
  minSize :: extent
  maxSize :: extent
  resizable :: bool
  draggable :: bool
  p_isMinimized :: bool
  p_isMaximized :: bool
  p_zIndex :: int

record WindowLocal =
  l_position :: point
  l_size :: extent
  isDragging :: bool
  isResizing :: bool
  resizeDirection :: string
  dragStart :: point
  resizeStart :: "real \<times> real \<times> real \<times> real"

datatype notification =
    onFocus string
  | onMove string point
  | onResize string extent
  | onClose string
  | onMinimize string
  | onMaximize string

text \<open>The first render of a window: each \<open>useState\<close> takes its initial value.\<close>

definition mount :: "WindowProps \<Rightarrow> WindowLocal" where
  "mount p = \<lparr>l_position = initialPosition p, l_size = initialSize p, isDragging = False,
     isResizing = False, resizeDirection = [], dragStart = (0, 0),
     resizeStart = (0, 0, 0, 0)\<rparr>"

text \<open>\<open>String.prototype.includes\<close>.\<close>

fun starts_with :: "string \<Rightarrow> string \<Rightarrow> bool" where
  "starts_with s [] = True"
| "starts_with [] (c # cs) = False"
| "starts_with (d # ds) (c # cs) = (d = c \<and> starts_with ds cs)"

fun includes_str :: "string \<Rightarrow> string \<Rightarrow> bool" where
  "includes_str [] sub = (sub = [])"
| "includes_str (d # ds) sub = (starts_with (d # ds) sub \<or> includes_str ds sub)"

text \<open>
  Each handler reads the state of the render that built it (\<open>l\<close>) and returns the state
  after its setters, with the callbacks it fired, in order.  An event \<open>e\<close> is
  \<open>(clientX, clientY)\<close>.
\<close>

definition handleMouseDown ::
  "WindowProps \<Rightarrow> point \<Rightarrow> WindowLocal \<Rightarrow> WindowLocal \<times> notification list" where
  "handleMouseDown p e l =
     (if \<not> draggable p \<or> p_isMaximized p then (l, [])
      else (l\<lparr>isDragging := True,
              dragStart := (fst e - fst (l_position l), snd e - snd (l_position l))\<rparr>,
            [onFocus (p_id p)]))"

definition handleResizeStart ::
  "WindowProps \<Rightarrow> point \<Rightarrow> string \<Rightarrow> WindowLocal \<Rightarrow> WindowLocal \<times> notification list" where
  "handleResizeStart p e direction l =
     (if \<not> resizable p \<or> p_isMaximized p then (l, [])
      else (l\<lparr>isResizing := True, resizeDirection := direction,
              resizeStart := (fst e, snd e, fst (l_size l), snd (l_size l))\<rparr>,
            [onFocus (p_id p)]))"

definition handleMouseMove ::
  "real \<times> real \<Rightarrow> WindowProps \<Rightarrow> point \<Rightarrow> WindowLocal
     \<Rightarrow> WindowLocal \<times> notification list" where
  "handleMouseMove viewport p e l =
     (let dragged =
            (if isDragging l \<and> \<not> p_isMaximized p then
               (let newPosition =
                      (max 0 (min (fst e - fst (dragStart l)) (fst viewport - fst (l_size l))),
                       max 0 (min (snd e - snd (dragStart l)) (snd viewport - snd (l_size l))))
                in (l\<lparr>l_position := newPosition\<rparr>, [onMove (p_id p) newPosition]))
             else (l, []))
      in if isResizing l then
           (let (rx, ry, rw, rh) = resizeStart l;
                deltaX = fst e - rx;
                deltaY = snd e - ry;
                dir = resizeDirection l;
                width1 = (if includes_str dir ''right''
                          then max (fst (minSize p)) (min (fst (maxSize p)) (rw + deltaX))
                          else rw);
                newWidth = (if includes_str dir ''left''
                            then max (fst (minSize p)) (min (fst (maxSize p)) (rw - deltaX))
                            else width1);
                newX = (if includes_str dir ''left'' then rx + deltaX else fst (l_position l));
                height1 = (if includes_str dir ''bottom''
                           then max (snd (minSize p)) (min (snd (maxSize p)) (rh + deltaY))
                           else rh);
                newHeight = (if includes_str dir ''top''
                             then max (snd (minSize p)) (min (snd (maxSize p)) (rh - deltaY))
                             else height1);
                newY = (if includes_str dir ''top'' then ry + deltaY else snd (l_position l))
            in ((fst dragged)\<lparr>l_size := (newWidth, newHeight), l_position := (newX, newY)\<rparr>,
                snd dragged @ [onResize (p_id p) (newWidth, newHeight),
                               onMove (p_id p) (newX, newY)]))
         else dragged)"

definition handleMouseUp :: "WindowLocal \<Rightarrow> WindowLocal" where
  "handleMouseUp l = l\<lparr>isDragging := False, isResizing := False, resizeDirection := []\<rparr>"

text \<open>The pointer-move events of one gesture, each handled from the state the last left.\<close>

fun mouse_moves ::
  "real \<times> real \<Rightarrow> WindowProps \<Rightarrow> point list \<Rightarrow> WindowLocal
     \<Rightarrow> (WindowLocal \<times> notification list) list" where
  "mouse_moves viewport p [] l = []"
| "mouse_moves viewport p (e # es) l =
     handleMouseMove viewport p e l
       # mouse_moves viewport p es (fst (handleMouseMove viewport p e l))"

definition drag_sequence ::
  "real \<times> real \<Rightarrow> WindowProps \<Rightarrow> point \<Rightarrow> point list \<Rightarrow> WindowLocal
     \<Rightarrow> (WindowLocal \<times> notification list) list" where
  "drag_sequence viewport p e0 es l =
     mouse_moves viewport p es (fst (handleMouseDown p e0 l))"

definition resize_sequence ::
  "real \<times> real \<Rightarrow> WindowProps \<Rightarrow> point \<Rightarrow> string \<Rightarrow> point list \<Rightarrow> WindowLocal
     \<Rightarrow> (WindowLocal \<times> notification list) list" where
  "resize_sequence viewport p e0 direction es l =
     mouse_moves viewport p es (fst (handleResizeStart p e0 direction l))"

text \<open>
  \<open>windowStyle\<close>: a maximized window fills the viewport (\<open>100vw\<close> by \<open>100vh\<close> at the
  origin); otherwise the box is the component's own \<open>position\<close> and \<open>size\<close> state.
\<close>

datatype window_style = fullscreen int | box point extent int

definition windowStyle :: "WindowProps \<Rightarrow> WindowLocal \<Rightarrow> window_style" where
  "windowStyle p l =
     (if p_isMaximized p then fullscreen (p_zIndex p + 1000)
      else box (l_position l) (l_size l) (p_zIndex p))"

definition ResizableWindow :: "WindowProps \<Rightarrow> WindowLocal \<Rightarrow> window_style option" where
  "ResizableWindow p l = (if p_isMinimized p then None else Some (windowStyle p l))"

subsection \<open>How the manager renders its windows\<close>

text \<open>
  The JSX of the manager: \<open>minSize\<close>, \<open>maxSize\<close>, \<open>resizable\<close>, \<open>draggable\<close> and
  \<open>isMinimized\<close> are not passed, so the component's defaults apply.
\<close>

definition window_props :: "real \<times> real \<Rightarrow> 'a WindowState \<Rightarrow> WindowProps" where
  "window_props viewport w =
     \<lparr>p_id = id_w w, initialPosition = position w, initialSize = size_w w,
      minSize = (300, 200), maxSize = (fst viewport - 100, snd viewport - 100),
      resizable = True, draggable = True, p_isMinimized = False,
      p_isMaximized = isMaximized w, p_zIndex = zIndex w\<rparr>"

text \<open>
  A render of the manager keeps the state of every window whose \<open>key\<close> (its id) was
  already mounted, mounts the non-minimized windows that are new, and unmounts the rest.
\<close>

definition rendered_window :: "'a manager \<Rightarrow> string \<Rightarrow> 'a WindowState option" where
  "rendered_window s k =
     find (\<lambda>w. id_w w = k) (filter (\<lambda>w. \<not> isMinimized w) (windows s))"

definition render_windows ::
  "real \<times> real \<Rightarrow> 'a manager \<Rightarrow> (string \<rightharpoonup> WindowLocal) \<Rightarrow> (string \<rightharpoonup> WindowLocal)" where
  "render_windows viewport s mounted =
     (\<lambda>k. case rendered_window s k of
             None \<Rightarrow> None
           | Some w \<Rightarrow> (case mounted k of
                          Some l \<Rightarrow> Some l
                        | None \<Rightarrow> Some (mount (window_props viewport w))))"

definition rendered_style ::
  "real \<times> real \<Rightarrow> 'a manager \<Rightarrow> (string \<rightharpoonup> WindowLocal) \<Rightarrow> string
     \<Rightarrow> window_style option" where
  "rendered_style viewport s mounted k =
     (case rendered_window s k of
        None \<Rightarrow> None
      | Some w \<Rightarrow> (case render_windows viewport s mounted k of
                     None \<Rightarrow> None
                   | Some l \<Rightarrow> ResizableWindow (window_props viewport w) l))"

section \<open>Operation sequences of the manager\<close>

datatype 'a action =
    CreateWindow string string 'a "'a WindowOptions"
  | FocusWindow string
  | CloseWindow string
  | MinimizeWindow string
  | MaximizeWindow string
  | UpdateWindowPosition string point
  | UpdateWindowSize string extent
  | ApplyLayoutPreset "nat \<Rightarrow> string" "'a LayoutPreset"
  | ArrangeWindows arrangement

fun step ::
  "real \<times> real \<Rightarrow> ('a WindowOptions \<Rightarrow> 'a) \<Rightarrow> 'a action \<Rightarrow> 'a manager \<Rightarrow> 'a manager" where
  "step vp ph (CreateWindow fresh ttl cmp opts) s = snd (createWindow fresh ttl cmp opts s)"
| "step vp ph (FocusWindow i) s = focusWindow i s"
| "step vp ph (CloseWindow i) s = closeWindow i s"
| "step vp ph (MinimizeWindow i) s = minimizeWindow i s"
| "step vp ph (MaximizeWindow i) s = maximizeWindow i s"
| "step vp ph (UpdateWindowPosition i pos) s = updateWindowPosition i pos s"
| "step vp ph (UpdateWindowSize i sz) s = updateWindowSize i sz s"
| "step vp ph (ApplyLayoutPreset gen preset) s = applyLayoutPreset ph gen preset s"
| "step vp ph (ArrangeWindows arr) s = arrangeWindows vp arr s"

fun run ::
  "real \<times> real \<Rightarrow> ('a WindowOptions \<Rightarrow> 'a) \<Rightarrow> 'a action list \<Rightarrow> 'a manager \<Rightarrow> 'a manager" where
  "run vp ph [] s = s"
| "run vp ph (a # as) s = run vp ph as (step vp ph a s)"

text \<open>
  The sequences without a preset in which every \<open>createWindow\<close> gets an id no live
  window has and options that set neither \<open>id\<close> nor \<open>zIndex\<close>.
\<close>

fun plain :: "'a action \<Rightarrow> 'a manager \<Rightarrow> bool" where
  "plain (CreateWindow fresh ttl cmp opts) s =
     (fresh \<notin> set (map id_w (windows s)) \<and> o_id opts = None \<and> o_zIndex opts = None)"
| "plain (ApplyLayoutPreset gen preset) s = False"
| "plain a s = True"

fun plain_run ::
  "real \<times> real \<Rightarrow> ('a WindowOptions \<Rightarrow> 'a) \<Rightarrow> 'a action list \<Rightarrow> 'a manager \<Rightarrow> bool" where
  "plain_run vp ph [] s = True"
| "plain_run vp ph (a # as) s = (plain a s \<and> plain_run vp ph as (step vp ph a s))"

text \<open>
  The id most recently created or focused; \<open>None\<close> at the start and after a \<open>stack\<close>
  arrangement, which renumbers the whole list.
\<close>

fun raised :: "'a action \<Rightarrow> string option \<Rightarrow> string option" where
  "raised (CreateWindow fresh ttl cmp opts) cur = Some fresh"
| "raised (FocusWindow i) cur = Some i"
| "raised (ArrangeWindows stack) cur = None"
| "raised a cur = cur"

fun last_raised :: "'a action list \<Rightarrow> string option \<Rightarrow> string option" where
  "last_raised [] cur = cur"
| "last_raised (a # as) cur = last_raised as (raised a cur)"

definition zIndex_unique :: "'a manager \<Rightarrow> bool" where
  "zIndex_unique s = distinct (map zIndex (windows s))"

definition on_top :: "string \<Rightarrow> 'a manager \<Rightarrow> bool" where
  "on_top i s =
     (\<forall>w \<in> set (windows s). \<forall>v \<in> set (windows s).
        id_w w = i \<and> id_w v \<noteq> i \<longrightarrow> zIndex v < zIndex w)"

section \<open>Notions used to state the properties\<close>

text \<open>The stacking order: each window's id with its \<open>zIndex\<close>, in list order.\<close>

definition stacking :: "'a manager \<Rightarrow> (string \<times> int) list" where
  "stacking s = map (\<lambda>w. (id_w w, zIndex w)) (windows s)"

text \<open>
  The invariant behind the stacking order: ids and indices are pairwise distinct, every
  index in use is below the counter, and so is the number of windows.
\<close>

definition stack_inv :: "'a manager \<Rightarrow> bool" where
  "stack_inv s =
     (distinct (map fst (stacking s)) \<and> distinct (map snd (stacking s)) \<and>
      (\<forall>p \<in> set (stacking s). snd p < nextZIndex s) \<and>
      int (length (stacking s)) < nextZIndex s)"

text \<open>The windows on the rendered surface, as the manager's JSX filters them.\<close>

definition visible :: "'a manager \<Rightarrow> 'a WindowState list" where
  "visible s = filter (\<lambda>w. \<not> isMinimized w) (windows s)"

text \<open>\<open>windowWidth\<close> and \<open>windowHeight\<close> of the tile branch, for \<open>n\<close> visible windows.\<close>

definition cell_width :: "real \<times> real \<Rightarrow> nat \<Rightarrow> real" where
  "cell_width viewport n = (fst viewport - 100) / real_of_int (tile_cols n)"

definition cell_height :: "real \<times> real \<Rightarrow> nat \<Rightarrow> real" where
  "cell_height viewport n = (snd viewport - 150) / real_of_int (tile_rows n)"

text \<open>
  The window put into the cell of index \<open>k\<close>: column \<open>k mod cols\<close>, row \<open>k div cols\<close>,
  at the cell's origin and smaller than the cell by the gutter of 10.
\<close>

definition place :: "real \<times> real \<Rightarrow> nat \<Rightarrow> int \<Rightarrow> 'a WindowState \<Rightarrow> 'a WindowState" where
  "place vp n k w =
     w\<lparr>position := (50 + real_of_int (k mod tile_cols n) * cell_width vp n,
                    50 + real_of_int (k div tile_cols n) * cell_height vp n),
       size_w := (cell_width vp n - 10, cell_height vp n - 10),
       isMaximized := False\<rparr>"

text \<open>
  The extent that two boxes share along each axis; the boxes have a point in common
  only if both extents are positive.
\<close>

definition overlap_x :: "'a WindowState \<Rightarrow> 'a WindowState \<Rightarrow> real" where
  "overlap_x a b =
     min (fst (position a) + fst (size_w a)) (fst (position b) + fst (size_w b))
       - max (fst (position a)) (fst (position b))"

definition overlap_y :: "'a WindowState \<Rightarrow> 'a WindowState \<Rightarrow> real" where
  "overlap_y a b =
     min (snd (position a) + snd (size_w a)) (snd (position b) + snd (size_w b))
       - max (snd (position a)) (snd (position b))"

text \<open>
  One step of a drag: the position is not negative, it is at most the viewport minus the
  window on each axis where the window fits at all, and exactly one move notification
  went out, carrying the position written.
\<close>

definition drag_ok ::
  "real \<times> real \<Rightarrow> WindowProps \<Rightarrow> WindowLocal \<times> notification list \<Rightarrow> bool" where
  "drag_ok vp p r =
     (0 \<le> fst (l_position (fst r)) \<and> 0 \<le> snd (l_position (fst r)) \<and>
      (fst (l_size (fst r)) \<le> fst vp \<longrightarrow>
         fst (l_position (fst r)) \<le> fst vp - fst (l_size (fst r))) \<and>
      (snd (l_size (fst r)) \<le> snd vp \<longrightarrow>
         snd (l_position (fst r)) \<le> snd vp - snd (l_size (fst r))) \<and>
      snd r = [onMove (p_id p) (l_position (fst r))])"

section \<open>Example states\<close>

definition viewport_hd :: "real \<times> real" where
  "viewport_hd = (1920, 1080)"

definition blank :: "unit WindowOptions \<Rightarrow> unit" where
  "blank windowConfig = ()"

definition one_window :: "'a \<Rightarrow> 'a manager" where
  "one_window cmp = snd (createWindow ''a'' ''A'' cmp no_options initial)"

definition two_windows :: "unit manager" where
  "two_windows = snd (createWindow ''b'' ''B'' () no_options (one_window ()))"

definition clash_options :: "'a WindowOptions" where
  "clash_options = no_options\<lparr>o_id := Some ''a'', o_zIndex := Some 1\<rparr>"

definition maximize_then_minimize :: "unit action list" where
  "maximize_then_minimize =
     [CreateWindow ''a'' ''A'' () no_options, MaximizeWindow ''a'', MinimizeWindow ''a'']"

definition focus_then_stack :: "unit action list" where
  "focus_then_stack =
     [CreateWindow ''a'' ''A'' () no_options, CreateWindow ''b'' ''B'' () no_options,
      FocusWindow ''a'', ArrangeWindows stack]"

definition create_then_focus :: "unit action list" where
  "create_then_focus =
     [CreateWindow ''a'' ''A'' () no_options, CreateWindow ''b'' ''B'' () no_options,
      FocusWindow ''a'']"

definition b_minimized :: "unit manager" where
  "b_minimized = run viewport_hd blank
     [CreateWindow ''a'' ''A'' () no_options, CreateWindow ''b'' ''B'' () no_options,
      CreateWindow ''c'' ''C'' () no_options, MinimizeWindow ''b''] initial"

text \<open>The one window of \<open>one_window\<close>, mounted by a first render of the manager.\<close>

definition mounted_one :: "string \<rightharpoonup> WindowLocal" where
  "mounted_one = render_windows viewport_hd (one_window ()) Map.empty"

definition props_a :: WindowProps where
  "props_a = window_props viewport_hd (hd (windows (one_window ())))"

text \<open>The \<open>Logs\<close> entry of the \<open>Monitoring\<close> preset, on a viewport of 1024 by 768.\<close>

definition viewport_small :: "real \<times> real" where
  "viewport_small = (1024, 768)"

definition logs_window :: "unit WindowState" where
  "logs_window = newWindow 0 1 ''logs'' ''Logs'' ()
     (no_options\<lparr>o_size := Some (1220, 300), o_position := Some (50, 470)\<rparr>)"

definition logs_props :: WindowProps where
  "logs_props = window_props viewport_small logs_window"

definition three_windows :: "unit manager" where
  "three_windows = snd (createWindow ''c'' ''C'' () no_options two_windows)"

text \<open>The window of \<open>props_a\<close> while a resize from its bottom handle is in progress.\<close>

definition resizing_a :: WindowLocal where
  "resizing_a = fst (handleResizeStart props_a (400, 500) ''bottom'' (mount props_a))"

section \<open>Properties\<close>

subsection \<open>Auxiliary facts\<close>

lemma map_fixed: "(\<And>w. w \<in> set ws \<Longrightarrow> f w = w) \<Longrightarrow> map f ws = ws"
  by (induction ws) auto

lemma filter_remove_one:
  "distinct (map f ws) \<Longrightarrow> i \<in> set (map f ws) \<Longrightarrow>
     \<exists>xs w ys. ws = xs @ w # ys \<and> f w = i \<and> filter (\<lambda>v. f v \<noteq> i) ws = xs @ ys"
proof (induction ws)
  case Nil
  then show ?case by simp
next
  case (Cons a ws)
  show ?case
  proof (cases "f a = i")
    case True
    with Cons.prems have "\<forall>v \<in> set ws. f v \<noteq> i" by (auto simp: image_iff)
    then have "filter (\<lambda>v. f v \<noteq> i) ws = ws" by (simp add: filter_id_conv)
    with True have "a # ws = [] @ a # ws \<and> f a = i
        \<and> filter (\<lambda>v. f v \<noteq> i) (a # ws) = [] @ ws"
      by simp
    then show ?thesis by blast
  next
    case False
    with Cons.prems have "distinct (map f ws)" "i \<in> set (map f ws)" by auto
    from Cons.IH [OF this] obtain xs w ys where
      "ws = xs @ w # ys" "f w = i" "filter (\<lambda>v. f v \<noteq> i) ws = xs @ ys" by blast
    with False have "a # ws = (a # xs) @ w # ys \<and> f w = i
        \<and> filter (\<lambda>v. f v \<noteq> i) (a # ws) = (a # xs) @ ys" by simp
    then show ?thesis by blast
  qed
qed

lemma last_created:
  "last (windows (snd (createWindow fresh ttl cmp opts s))) =
     newWindow (length (windows s)) (nextZIndex s) fresh ttl cmp opts"
  by (simp add: createWindow_def createWindow_at_def)

lemma one_window_eq:
  "one_window cmp = \<lparr>windows =
      [\<lparr>id_w = ''a'', title = ''A'', component = cmp, props = None, position = (100, 100),
        size_w = (600, 400), isMinimized = False, isMaximized = False, zIndex = 1,
        icon = None, type_w = custom\<rparr>],
      nextZIndex = 2, showLayoutMenu = False\<rparr>"
  by (simp add: one_window_def createWindow_def createWindow_at_def newWindow_def
      spread_def no_options_def initial_def)

lemma two_windows_eq:
  "two_windows = \<lparr>windows =
      [\<lparr>id_w = ''a'', title = ''A'', component = (), props = None, position = (100, 100),
        size_w = (600, 400), isMinimized = False, isMaximized = False, zIndex = 1,
        icon = None, type_w = custom\<rparr>,
       \<lparr>id_w = ''b'', title = ''B'', component = (), props = None, position = (130, 130),
        size_w = (600, 400), isMinimized = False, isMaximized = False, zIndex = 2,
        icon = None, type_w = custom\<rparr>],
      nextZIndex = 3, showLayoutMenu = False\<rparr>"
  by (simp add: two_windows_def one_window_eq createWindow_def createWindow_at_def
      newWindow_def spread_def no_options_def)

lemma three_windows_eq:
  "three_windows = \<lparr>windows =
      [\<lparr>id_w = ''a'', title = ''A'', component = (), props = None, position = (100, 100),
        size_w = (600, 400), isMinimized = False, isMaximized = False, zIndex = 1,
        icon = None, type_w = custom\<rparr>,
       \<lparr>id_w = ''b'', title = ''B'', component = (), props = None, position = (130, 130),
        size_w = (600, 400), isMinimized = False, isMaximized = False, zIndex = 2,
        icon = None, type_w = custom\<rparr>,
       \<lparr>id_w = ''c'', title = ''C'', component = (), props = None, position = (160, 160),
        size_w = (600, 400), isMinimized = False, isMaximized = False, zIndex = 3,
        icon = None, type_w = custom\<rparr>],
      nextZIndex = 4, showLayoutMenu = False\<rparr>"
  by (simp add: three_windows_def two_windows_eq createWindow_def createWindow_at_def
      newWindow_def spread_def no_options_def)

subsection \<open>Operations on an id that is not in the collection\<close>

text \<open>
  Claim C9.  When no window has the id \<open>i\<close>, \<open>closeWindow\<close>, \<open>minimizeWindow\<close>,
  \<open>maximizeWindow\<close>, \<open>updateWindowPosition\<close> and \<open>updateWindowSize\<close> return the manager
  state they were given, and \<open>focusWindow\<close> leaves the window list as it was (it still
  advances the counter).  None of the operations has an error branch.  When the ids are
  pairwise distinct and \<open>i\<close> is one of them, \<open>closeWindow i\<close> removes exactly the one
  entry with that id; a second \<open>closeWindow i\<close> changes nothing.
\<close>

theorem unknown_id_ignored:
  "(i \<notin> set (map id_w (windows s)) \<longrightarrow>
      closeWindow i s = s \<and> minimizeWindow i s = s \<and> maximizeWindow i s = s \<and>
      updateWindowPosition i pos s = s \<and> updateWindowSize i sz s = s \<and>
      windows (focusWindow i s) = windows s \<and>
      nextZIndex (focusWindow i s) = nextZIndex s + 1) \<and>
   (distinct (map id_w (windows s)) \<and> i \<in> set (map id_w (windows s)) \<longrightarrow>
      (\<exists>xs w ys. windows s = xs @ w # ys \<and> id_w w = i \<and>
         windows (closeWindow i s) = xs @ ys)) \<and>
   closeWindow i (closeWindow i s) = closeWindow i s"
proof (intro conjI impI)
  assume "i \<notin> set (map id_w (windows s))"
  then have n: "\<And>w. w \<in> set (windows s) \<Longrightarrow> id_w w \<noteq> i" by auto
  show "closeWindow i s = s"
    using n by (simp add: closeWindow_def filter_id_conv)
  show "minimizeWindow i s = s"
    using n by (simp add: minimizeWindow_def map_fixed)
  show "maximizeWindow i s = s"
    using n by (simp add: maximizeWindow_def map_fixed)
  show "updateWindowPosition i pos s = s"
    using n by (simp add: updateWindowPosition_def map_fixed)
  show "updateWindowSize i sz s = s"
    using n by (simp add: updateWindowSize_def map_fixed)
  show "windows (focusWindow i s) = windows s"
    using n by (simp add: focusWindow_def map_fixed)
  show "nextZIndex (focusWindow i s) = nextZIndex s + 1"
    by (simp add: focusWindow_def)
next
  assume "distinct (map id_w (windows s)) \<and> i \<in> set (map id_w (windows s))"
  then show "\<exists>xs w ys. windows s = xs @ w # ys \<and> id_w w = i \<and>
         windows (closeWindow i s) = xs @ ys"
    using filter_remove_one [of id_w "windows s" i] by (simp add: closeWindow_def)
next
  show "closeWindow i (closeWindow i s) = closeWindow i s"
    by (simp add: closeWindow_def)
qed

theorem unknown_id_ignored_witness:
  "''c'' \<notin> set (map id_w (windows two_windows)) \<and>
   closeWindow ''c'' two_windows = two_windows \<and>
   windows (focusWindow ''c'' two_windows) = windows two_windows \<and>
   distinct (map id_w (windows two_windows)) \<and>
   ''a'' \<in> set (map id_w (windows two_windows)) \<and>
   length (windows (closeWindow ''a'' two_windows)) = 1"
proof -
  have h1: "''c'' \<notin> set (map id_w (windows two_windows))"
    by (simp add: two_windows_eq)
  have h2: "distinct (map id_w (windows two_windows)) \<and>
      ''a'' \<in> set (map id_w (windows two_windows))"
    by (simp add: two_windows_eq)
  have l: "length (windows two_windows) = 2" by (simp add: two_windows_eq)
  from unknown_id_ignored [of "''c''" two_windows "(0, 0)" "(0, 0)"] h1
  have a: "closeWindow ''c'' two_windows = two_windows"
    "windows (focusWindow ''c'' two_windows) = windows two_windows" by blast+
  from unknown_id_ignored [of "''a''" two_windows "(0, 0)" "(0, 0)"] h2
  obtain xs w ys where "windows two_windows = xs @ w # ys"
    "windows (closeWindow ''a'' two_windows) = xs @ ys" by blast
  with l have "length (windows (closeWindow ''a'' two_windows)) = 1" by simp
  with a h1 h2 show ?thesis by blast
qed

subsection \<open>Options given to createWindow\<close>

text \<open>
  Claim C10.  The window that \<open>createWindow\<close> appends takes, for every field, the value
  found in \<open>options\<close> when the key is present, and the manager's value (generated id,
  title and component arguments, cascade position, default size, \<open>false\<close> flags, the
  counter as \<open>zIndex\<close>, type \<open>custom\<close>) only when it is absent.  So there are options
  and a state with pairwise distinct ids and stacking indices, and a generated id that
  is new, for which the created window repeats both the id and the \<open>zIndex\<close> of a
  window already there.
\<close>

theorem createWindow_options_override:
  "(let w = last (windows (snd (createWindow fresh ttl cmp opts s))) in
      id_w w = (case o_id opts of Some v \<Rightarrow> v | None \<Rightarrow> fresh) \<and>
      title w = (case o_title opts of Some v \<Rightarrow> v | None \<Rightarrow> ttl) \<and>
      component w = (case o_component opts of Some v \<Rightarrow> v | None \<Rightarrow> cmp) \<and>
      props w = o_props opts \<and>
      position w = (case o_position opts of Some v \<Rightarrow> v
                    | None \<Rightarrow> (100 + real (length (windows s)) * 30,
                                100 + real (length (windows s)) * 30)) \<and>
      size_w w = (case o_size opts of Some v \<Rightarrow> v | None \<Rightarrow> (600, 400)) \<and>
      isMinimized w = (case o_isMinimized opts of Some v \<Rightarrow> v | None \<Rightarrow> False) \<and>
      isMaximized w = (case o_isMaximized opts of Some v \<Rightarrow> v | None \<Rightarrow> False) \<and>
      zIndex w = (case o_zIndex opts of Some v \<Rightarrow> v | None \<Rightarrow> nextZIndex s) \<and>
      icon w = o_icon opts \<and>
      type_w w = (case o_type opts of Some v \<Rightarrow> v | None \<Rightarrow> custom)) \<and>
   (\<exists>opts0 s0 fresh0.
      fresh0 \<notin> set (map id_w (windows s0)) \<and>
      distinct (map id_w (windows s0)) \<and> distinct (map zIndex (windows s0)) \<and>
      \<not> distinct (map id_w (windows (snd (createWindow fresh0 ttl cmp opts0 s0)))) \<and>
      \<not> distinct (map zIndex (windows (snd (createWindow fresh0 ttl cmp opts0 s0)))))"
proof (rule conjI)
  show "let w = last (windows (snd (createWindow fresh ttl cmp opts s))) in
      id_w w = (case o_id opts of Some v \<Rightarrow> v | None \<Rightarrow> fresh) \<and>
      title w = (case o_title opts of Some v \<Rightarrow> v | None \<Rightarrow> ttl) \<and>
      component w = (case o_component opts of Some v \<Rightarrow> v | None \<Rightarrow> cmp) \<and>
      props w = o_props opts \<and>
      position w = (case o_position opts of Some v \<Rightarrow> v
                    | None \<Rightarrow> (100 + real (length (windows s)) * 30,
                                100 + real (length (windows s)) * 30)) \<and>
      size_w w = (case o_size opts of Some v \<Rightarrow> v | None \<Rightarrow> (600, 400)) \<and>
      isMinimized w = (case o_isMinimized opts of Some v \<Rightarrow> v | None \<Rightarrow> False) \<and>
      isMaximized w = (case o_isMaximized opts of Some v \<Rightarrow> v | None \<Rightarrow> False) \<and>
      zIndex w = (case o_zIndex opts of Some v \<Rightarrow> v | None \<Rightarrow> nextZIndex s) \<and>
      icon w = o_icon opts \<and>
      type_w w = (case o_type opts of Some v \<Rightarrow> v | None \<Rightarrow> custom)"
    unfolding last_created newWindow_def spread_def Let_def
    by (simp split: option.split)
next
  have "''b'' \<notin> set (map id_w (windows (one_window cmp))) \<and>
      distinct (map id_w (windows (one_window cmp))) \<and>
      distinct (map zIndex (windows (one_window cmp))) \<and>
      \<not> distinct (map id_w (windows
            (snd (createWindow ''b'' ttl cmp clash_options (one_window cmp))))) \<and>
      \<not> distinct (map zIndex (windows
            (snd (createWindow ''b'' ttl cmp clash_options (one_window cmp)))))"
    by (simp add: one_window_eq createWindow_def createWindow_at_def newWindow_def
        spread_def clash_options_def no_options_def)
  then show "\<exists>opts0 s0 fresh0.
      fresh0 \<notin> set (map id_w (windows s0)) \<and>
      distinct (map id_w (windows s0)) \<and> distinct (map zIndex (windows s0)) \<and>
      \<not> distinct (map id_w (windows (snd (createWindow fresh0 ttl cmp opts0 s0)))) \<and>
      \<not> distinct (map zIndex (windows (snd (createWindow fresh0 ttl cmp opts0 s0))))"
    by blast
qed

subsection \<open>The minimized and maximized flags\<close>

text \<open>
  Claim C4, against the claim as stated: a window that is created, maximized and then
  minimized has both \<open>isMinimized\<close> and \<open>isMaximized\<close> set.
\<close>

theorem minimized_and_maximized_counterexample:
  "length (windows (run viewport_hd blank maximize_then_minimize initial)) = 1 \<and>
   isMinimized (hd (windows (run viewport_hd blank maximize_then_minimize initial))) \<and>
   isMaximized (hd (windows (run viewport_hd blank maximize_then_minimize initial)))"
  by (simp add: maximize_then_minimize_def createWindow_def createWindow_at_def
      newWindow_def spread_def no_options_def initial_def minimizeWindow_def
      maximizeWindow_def)

text \<open>
  Claim C4, as amended.  The two flags are independent: \<open>minimizeWindow i\<close> flips
  \<open>isMinimized\<close> on the windows whose id is \<open>i\<close> and leaves every \<open>isMaximized\<close> as it
  was; \<open>maximizeWindow i\<close> flips \<open>isMaximized\<close> on the windows whose id is \<open>i\<close> and
  leaves every \<open>isMinimized\<close> as it was.
\<close>

theorem toggles_are_independent:
  "map isMaximized (windows (minimizeWindow i s)) = map isMaximized (windows s) \<and>
   map isMinimized (windows (minimizeWindow i s)) =
     map (\<lambda>w. if id_w w = i then \<not> isMinimized w else isMinimized w) (windows s) \<and>
   map isMinimized (windows (maximizeWindow i s)) = map isMinimized (windows s) \<and>
   map isMaximized (windows (maximizeWindow i s)) =
     map (\<lambda>w. if id_w w = i then \<not> isMaximized w else isMaximized w) (windows s)"
  by (simp add: minimizeWindow_def maximizeWindow_def comp_def)

subsection \<open>The stacking order\<close>

lemma on_top_stacking:
  "on_top i s =
     (\<forall>p \<in> set (stacking s). \<forall>q \<in> set (stacking s).
        fst p = i \<and> fst q \<noteq> i \<longrightarrow> snd q < snd p)"
  by (auto simp: on_top_def stacking_def)

lemma zIndex_unique_stacking: "zIndex_unique s = distinct (map snd (stacking s))"
  by (simp add: zIndex_unique_def stacking_def comp_def)

lemma stacking_create:
  "o_id opts = None \<Longrightarrow> o_zIndex opts = None \<Longrightarrow>
     stacking (snd (createWindow fresh ttl cmp opts s)) = stacking s @ [(fresh, nextZIndex s)]"
  by (simp add: stacking_def createWindow_def createWindow_at_def newWindow_def spread_def
      Let_def)

lemma nextZIndex_create:
  "nextZIndex (snd (createWindow fresh ttl cmp opts s)) = nextZIndex s + 1"
  by (simp add: createWindow_def createWindow_at_def)

lemma stacking_focus:
  "stacking (focusWindow i s) =
     map (\<lambda>p. (fst p, if fst p = i then nextZIndex s else snd p)) (stacking s)"
  by (simp add: stacking_def focusWindow_def comp_def)

lemma stacking_close:
  "stacking (closeWindow i s) = filter (\<lambda>p. fst p \<noteq> i) (stacking s)"
  by (simp add: stacking_def closeWindow_def filter_map comp_def)

lemma stacking_same:
  "stacking (minimizeWindow i s) = stacking s"
  "stacking (maximizeWindow i s) = stacking s"
  "stacking (updateWindowPosition i pos s) = stacking s"
  "stacking (updateWindowSize i sz s) = stacking s"
  by (simp_all add: stacking_def minimizeWindow_def maximizeWindow_def
      updateWindowPosition_def updateWindowSize_def comp_def)

lemma nextZIndex_same:
  "nextZIndex (closeWindow i s) = nextZIndex s"
  "nextZIndex (minimizeWindow i s) = nextZIndex s"
  "nextZIndex (maximizeWindow i s) = nextZIndex s"
  "nextZIndex (updateWindowPosition i pos s) = nextZIndex s"
  "nextZIndex (updateWindowSize i sz s) = nextZIndex s"
  "nextZIndex (arrangeWindows vp arr s) = nextZIndex s"
  by (simp_all add: closeWindow_def minimizeWindow_def maximizeWindow_def
      updateWindowPosition_def updateWindowSize_def arrangeWindows_def Let_def
      split: arrangement.split)

lemma map_enumerate_keep:
  "(\<And>k w. g (f k w) = g w) \<Longrightarrow> map (g \<circ> case_prod f) (enumerate n ws) = map g ws"
  by (induction ws arbitrary: n) simp_all

lemma map_enumerate_index:
  "(\<And>k w. g (f k w) = h k) \<Longrightarrow>
     map (g \<circ> case_prod f) (enumerate n ws) = map h [n..<n + length ws]"
proof (induction ws arbitrary: n)
  case Nil
  then show ?case by simp
next
  case (Cons w ws)
  have "[n..<n + length (w # ws)] = n # [Suc n..<Suc n + length ws]"
    by (subst upt_rec) simp
  with Cons.IH [OF Cons.prems, of "Suc n"] Cons.prems show ?case by simp
qed

lemma stacking_cascade: "stacking (arrangeWindows vp cascade s) = stacking s"
  unfolding stacking_def arrangeWindows_def Let_def
  by (simp add: map_enumerate_keep)

lemma stacking_tile: "stacking (arrangeWindows vp tile s) = stacking s"
  unfolding stacking_def arrangeWindows_def Let_def
  by (simp add: comp_def)

lemma map_fst_stacking: "map fst (stacking s) = map id_w (windows s)"
  by (simp add: stacking_def comp_def)

lemma map_snd_stacking: "map snd (stacking s) = map zIndex (windows s)"
  by (simp add: stacking_def comp_def)

lemma stacking_stack:
  "map fst (stacking (arrangeWindows vp stack s)) = map fst (stacking s)"
  "map snd (stacking (arrangeWindows vp stack s)) =
     map (\<lambda>k. int k + 1) [0..<length (stacking s)]"
proof -
  show "map fst (stacking (arrangeWindows vp stack s)) = map fst (stacking s)"
    unfolding map_fst_stacking arrangeWindows_def Let_def
    by (simp add: map_enumerate_keep)
  have "length (stacking s) = length (windows s)"
    by (simp add: stacking_def)
  then show "map snd (stacking (arrangeWindows vp stack s)) =
     map (\<lambda>k. int k + 1) [0..<length (stacking s)]"
    unfolding map_snd_stacking arrangeWindows_def Let_def
    using map_enumerate_index [where g = zIndex and h = "\<lambda>k. int k + 1" and n = 0
        and ws = "windows s"
        and f = "\<lambda>index w. w\<lparr>position := (100, 100), size_w := (800, 600),
                   isMaximized := False, zIndex := int index + 1\<rparr>"]
    by simp
qed

lemma stack_invI:
  "distinct (map fst (stacking s)) \<Longrightarrow> distinct (map snd (stacking s)) \<Longrightarrow>
   \<forall>z \<in> set (map snd (stacking s)). z < nextZIndex s \<Longrightarrow>
   int (length (map fst (stacking s))) < nextZIndex s \<Longrightarrow> stack_inv s"
  by (simp add: stack_inv_def)

lemma distinct_raise:
  fixes ps :: "(string \<times> int) list"
  assumes "distinct (map fst ps)" "distinct (map snd ps)" "\<forall>p \<in> set ps. snd p < n"
  shows "distinct (map snd (map (\<lambda>p. (fst p, if fst p = i then n else snd p)) ps))"
  using assms
proof (induction ps)
  case Nil
  then show ?case by simp
next
  case (Cons p ps)
  then have IH: "distinct (map snd (map (\<lambda>p. (fst p, if fst p = i then n else snd p)) ps))"
    by simp
  have "(if fst p = i then n else snd p)
      \<notin> set (map snd (map (\<lambda>p. (fst p, if fst p = i then n else snd p)) ps))"
  proof
    assume "(if fst p = i then n else snd p)
      \<in> set (map snd (map (\<lambda>p. (fst p, if fst p = i then n else snd p)) ps))"
    then obtain q where q: "q \<in> set ps"
      "(if fst p = i then n else snd p) = (if fst q = i then n else snd q)"
      by auto
    from Cons.prems q(1) have "fst q \<noteq> fst p" "snd q \<noteq> snd p" "snd q < n" "snd p < n"
      by (auto simp: image_iff)
    with q(2) show False by (auto split: if_splits)
  qed
  with IH show ?case by simp
qed

lemma stack_inv_step:
  assumes "stack_inv s" "\<forall>i. cur = Some i \<longrightarrow> on_top i s" "plain a s"
  shows "stack_inv (step vp ph a s) \<and>
         (\<forall>i. raised a cur = Some i \<longrightarrow> on_top i (step vp ph a s))"
proof (cases a)
  case (CreateWindow fresh ttl cmp opts)
  with assms(3) have f: "fresh \<notin> set (map fst (stacking s))"
    and o: "o_id opts = None" "o_zIndex opts = None"
    by (simp_all add: stacking_def comp_def)
  have st: "stacking (step vp ph a s) = stacking s @ [(fresh, nextZIndex s)]"
    using o CreateWindow by (simp add: stacking_create)
  have nx: "nextZIndex (step vp ph a s) = nextZIndex s + 1"
    using CreateWindow by (simp add: nextZIndex_create)
  from assms(1) have b: "\<forall>p \<in> set (stacking s). snd p < nextZIndex s"
    by (simp add: stack_inv_def)
  then have "nextZIndex s \<notin> set (map snd (stacking s))" by auto
  with assms(1) f b have "stack_inv (step vp ph a s)"
    unfolding stack_inv_def st nx by auto
  moreover have "on_top fresh (step vp ph a s)"
    unfolding on_top_stacking st using f b by (auto simp: image_iff)
  ultimately show ?thesis using CreateWindow by simp
next
  case (FocusWindow i)
  have st: "stacking (step vp ph a s) =
      map (\<lambda>p. (fst p, if fst p = i then nextZIndex s else snd p)) (stacking s)"
    using FocusWindow by (simp add: stacking_focus)
  have nx: "nextZIndex (step vp ph a s) = nextZIndex s + 1"
    using FocusWindow by (simp add: focusWindow_def)
  from assms(1) have b: "\<forall>p \<in> set (stacking s). snd p < nextZIndex s"
    and d: "distinct (map fst (stacking s))" "distinct (map snd (stacking s))"
    and l: "int (length (stacking s)) < nextZIndex s"
    by (simp_all add: stack_inv_def)
  have "distinct (map snd (stacking (step vp ph a s)))"
    unfolding st using d b by (rule distinct_raise)
  moreover have m: "map fst (stacking (step vp ph a s)) = map fst (stacking s)"
    unfolding st by (simp add: comp_def)
  moreover have "\<forall>z \<in> set (map snd (stacking (step vp ph a s))). z < nextZIndex s + 1"
    unfolding st using b by auto
  ultimately have "stack_inv (step vp ph a s)"
    using d l by (intro stack_invI) (simp_all only: m nx, simp_all)
  moreover have "on_top i (step vp ph a s)"
    unfolding on_top_stacking st using b by auto
  ultimately show ?thesis using FocusWindow by simp
next
  case (CloseWindow i)
  have st: "stacking (step vp ph a s) = filter (\<lambda>p. fst p \<noteq> i) (stacking s)"
    using CloseWindow by (simp add: stacking_close)
  have nx: "nextZIndex (step vp ph a s) = nextZIndex s"
    using CloseWindow by (simp add: nextZIndex_same)
  from assms(1) have b: "\<forall>p \<in> set (stacking s). snd p < nextZIndex s"
    and d: "distinct (map fst (stacking s))" "distinct (map snd (stacking s))"
    and l: "int (length (stacking s)) < nextZIndex s"
    by (simp_all add: stack_inv_def)
  have "int (length (filter (\<lambda>p. fst p \<noteq> i) (stacking s))) < nextZIndex s"
    using l length_filter_le [of "\<lambda>p. fst p \<noteq> i" "stacking s"] by linarith
  with b d have "stack_inv (step vp ph a s)"
    unfolding stack_inv_def st nx by (auto simp: distinct_map_filter)
  moreover have "\<forall>j. cur = Some j \<longrightarrow> on_top j (step vp ph a s)"
    using assms(2) unfolding on_top_stacking st by auto
  ultimately show ?thesis using CloseWindow by simp
next
  case (MinimizeWindow i)
  then have "stacking (step vp ph a s) = stacking s" "nextZIndex (step vp ph a s) = nextZIndex s"
    by (simp_all add: stacking_same nextZIndex_same)
  with assms MinimizeWindow show ?thesis
    by (simp add: stack_inv_def on_top_stacking)
next
  case (MaximizeWindow i)
  then have "stacking (step vp ph a s) = stacking s" "nextZIndex (step vp ph a s) = nextZIndex s"
    by (simp_all add: stacking_same nextZIndex_same)
  with assms MaximizeWindow show ?thesis
    by (simp add: stack_inv_def on_top_stacking)
next
  case (UpdateWindowPosition i pos)
  then have "stacking (step vp ph a s) = stacking s" "nextZIndex (step vp ph a s) = nextZIndex s"
    by (simp_all add: stacking_same nextZIndex_same)
  with assms UpdateWindowPosition show ?thesis
    by (simp add: stack_inv_def on_top_stacking)
next
  case (UpdateWindowSize i sz)
  then have "stacking (step vp ph a s) = stacking s" "nextZIndex (step vp ph a s) = nextZIndex s"
    by (simp_all add: stacking_same nextZIndex_same)
  with assms UpdateWindowSize show ?thesis
    by (simp add: stack_inv_def on_top_stacking)
next
  case (ApplyLayoutPreset gen preset)
  with assms(3) show ?thesis by simp
next
  case (ArrangeWindows arr)
  have nx: "nextZIndex (step vp ph a s) = nextZIndex s"
    using ArrangeWindows by (simp add: nextZIndex_same)
  show ?thesis
  proof (cases arr)
    case cascade
    with ArrangeWindows have "stacking (step vp ph a s) = stacking s"
      by (simp add: stacking_cascade)
    with assms nx ArrangeWindows cascade show ?thesis
      by (simp add: stack_inv_def on_top_stacking)
  next
    case tile
    with ArrangeWindows have "stacking (step vp ph a s) = stacking s"
      by (simp add: stacking_tile)
    with assms nx ArrangeWindows tile show ?thesis
      by (simp add: stack_inv_def on_top_stacking)
  next
    case stack
    with ArrangeWindows have m1: "map fst (stacking (step vp ph a s)) = map fst (stacking s)"
      and m2: "map snd (stacking (step vp ph a s)) =
        map (\<lambda>k. int k + 1) [0..<length (stacking s)]"
      by (simp_all add: stacking_stack)
    from assms(1) have l: "int (length (stacking s)) < nextZIndex s"
      and d: "distinct (map fst (stacking s))"
      by (simp_all add: stack_inv_def)
    have "distinct (map (\<lambda>k. int k + 1) [0..<length (stacking s)])"
      by (simp add: distinct_map inj_on_def)
    moreover have "\<forall>z \<in> set (map (\<lambda>k. int k + 1) [0..<length (stacking s)]). z < nextZIndex s"
      using l by auto
    ultimately have "stack_inv (step vp ph a s)"
      using d l by (intro stack_invI) (simp_all only: m1 m2 nx, simp_all)
    then show ?thesis using ArrangeWindows stack by simp
  qed
qed

lemma stack_inv_run:
  "stack_inv s \<Longrightarrow> \<forall>i. cur = Some i \<longrightarrow> on_top i s \<Longrightarrow> plain_run vp ph acts s \<Longrightarrow>
     stack_inv (run vp ph acts s) \<and>
     (\<forall>i. last_raised acts cur = Some i \<longrightarrow> on_top i (run vp ph acts s))"
proof (induction acts arbitrary: s cur)
  case Nil
  then show ?case by simp
next
  case (Cons a acts)
  from Cons.prems have p: "plain a s" "plain_run vp ph acts (step vp ph a s)" by simp_all
  from stack_inv_step [OF Cons.prems(1,2) p(1), of vp ph]
  have "stack_inv (step vp ph a s)"
    "\<forall>i. raised a cur = Some i \<longrightarrow> on_top i (step vp ph a s)" by simp_all
  from Cons.IH [OF this p(2)] show ?case by simp
qed

lemma stack_inv_initial: "stack_inv initial"
  by (simp add: stack_inv_def stacking_def initial_def)

text \<open>
  Claim C1, against the claim as stated: after two windows are created, the first is
  focused and the \<open>stack\<close> arrangement is applied, the window focused last (\<open>a\<close>) has
  \<open>zIndex\<close> 1 and the other window has 2.
\<close>

theorem focused_not_on_top_counterexample:
  "plain_run viewport_hd blank focus_then_stack initial \<and>
   last_raised create_then_focus None = Some ''a'' \<and>
   map id_w (windows (run viewport_hd blank focus_then_stack initial)) = [''a'', ''b''] \<and>
   map zIndex (windows (run viewport_hd blank focus_then_stack initial)) = [1, 2] \<and>
   \<not> on_top ''a'' (run viewport_hd blank focus_then_stack initial)"
  by (simp add: focus_then_stack_def create_then_focus_def createWindow_def
      createWindow_at_def newWindow_def spread_def no_options_def initial_def
      focusWindow_def arrangeWindows_def on_top_def Let_def)

text \<open>
  Claim C1, as amended.  Take any sequence of \<open>createWindow\<close> (with a generated id no
  live window has, and options that set neither \<open>id\<close> nor \<open>zIndex\<close>), \<open>focusWindow\<close>,
  \<open>closeWindow\<close>, \<open>minimizeWindow\<close>, \<open>maximizeWindow\<close>, \<open>updateWindowPosition\<close>,
  \<open>updateWindowSize\<close> and \<open>arrangeWindows\<close> in any mode, run from the empty manager.
  Afterwards the \<open>zIndex\<close> values of the live windows are pairwise distinct, and if no
  \<open>stack\<close> arrangement came after the last \<open>createWindow\<close> or \<open>focusWindow\<close>, the window
  created or focused there has a \<open>zIndex\<close> strictly above every other live window's.
\<close>

theorem plain_run_stacking:
  "plain_run vp ph acts initial \<Longrightarrow>
     zIndex_unique (run vp ph acts initial) \<and>
     (\<forall>i. last_raised acts None = Some i \<longrightarrow> on_top i (run vp ph acts initial))"
  using stack_inv_run [OF stack_inv_initial, of None vp ph acts]
  by (simp add: stack_inv_def zIndex_unique_stacking)

theorem plain_run_stacking_witness:
  "plain_run viewport_hd blank create_then_focus initial \<and>
   last_raised create_then_focus None = Some ''a'' \<and>
   zIndex_unique (run viewport_hd blank create_then_focus initial) \<and>
   on_top ''a'' (run viewport_hd blank create_then_focus initial) \<and>
   map zIndex (windows (run viewport_hd blank create_then_focus initial)) = [3, 2]"
proof -
  have h: "plain_run viewport_hd blank create_then_focus initial"
    by (simp add: create_then_focus_def createWindow_def createWindow_at_def newWindow_def
        spread_def no_options_def initial_def Let_def)
  have r: "last_raised create_then_focus None = Some ''a''"
    by (simp add: create_then_focus_def)
  have z: "map zIndex (windows (run viewport_hd blank create_then_focus initial)) = [3, 2]"
    by (simp add: create_then_focus_def createWindow_def createWindow_at_def newWindow_def
        spread_def no_options_def initial_def focusWindow_def Let_def)
  from plain_run_stacking [OF h] r
  have "zIndex_unique (run viewport_hd blank create_then_focus initial)"
    "on_top ''a'' (run viewport_hd blank create_then_focus initial)"
    by blast+
  with h r z show ?thesis by blast
qed

subsection \<open>Dragging\<close>

lemma drag_step:
  assumes "isDragging l" "\<not> isResizing l" "\<not> p_isMaximized p"
  shows "handleMouseMove vp p e l =
     (l\<lparr>l_position :=
          (max 0 (min (fst e - fst (dragStart l)) (fst vp - fst (l_size l))),
           max 0 (min (snd e - snd (dragStart l)) (snd vp - snd (l_size l))))\<rparr>,
      [onMove (p_id p)
          (max 0 (min (fst e - fst (dragStart l)) (fst vp - fst (l_size l))),
           max 0 (min (snd e - snd (dragStart l)) (snd vp - snd (l_size l))))])"
  using assms by (simp add: handleMouseMove_def Let_def)

lemma drag_step_ok:
  assumes "isDragging l" "\<not> isResizing l" "\<not> p_isMaximized p"
  shows "drag_ok vp p (handleMouseMove vp p e l)"
    and "isDragging (fst (handleMouseMove vp p e l))"
    and "\<not> isResizing (fst (handleMouseMove vp p e l))"
  unfolding drag_step [OF assms] drag_ok_def using assms by auto

lemma mouse_moves_ok:
  "isDragging l \<Longrightarrow> \<not> isResizing l \<Longrightarrow> \<not> p_isMaximized p \<Longrightarrow>
     \<forall>r \<in> set (mouse_moves vp p es l). drag_ok vp p r"
proof (induction es arbitrary: l)
  case Nil
  then show ?case by simp
next
  case (Cons e es)
  from drag_step_ok [OF Cons.prems, of vp e] Cons.IH [of "fst (handleMouseMove vp p e l)"]
    Cons.prems(3)
  show ?case by simp
qed

text \<open>
  Claim C6, against the claim as stated, twice.  On a viewport 1024 wide, a window 1220
  wide (the \<open>Logs\<close> entry of the \<open>Monitoring\<close> preset) is put at \<open>x = 0\<close> by the first
  move of a drag, which is above \<open>viewportWidth - windowWidth = -196\<close>.  And when the
  header of a window at \<open>(100, 100)\<close> is pressed at \<open>(110, 110)\<close> while a resize from its
  bottom handle is in progress, the move to \<open>(160, 120)\<close> emits a move notification with
  the clamped \<open>(150, 110)\<close>, then a resize notification, then a second move notification
  with \<open>(100, 100)\<close>, which is also the position written.
\<close>

theorem drag_clamp_counterexample:
  "draggable props_a \<and> \<not> p_isMaximized props_a \<and>
   snd (hd (drag_sequence viewport_hd props_a (110, 110) [(160, 120)] resizing_a))
     = [onMove ''a'' (150, 110), onResize ''a'' (600, 200), onMove ''a'' (100, 100)] \<and>
   l_position (fst (hd (drag_sequence viewport_hd props_a (110, 110) [(160, 120)]
     resizing_a))) = (100, 100) \<and>
   draggable logs_props \<and> \<not> p_isMaximized logs_props \<and>
   fst (l_size (fst (hd (drag_sequence viewport_small logs_props (60, 480) [(70, 490)]
       (mount logs_props))))) = 1220 \<and>
   fst (l_position (fst (hd (drag_sequence viewport_small logs_props (60, 480) [(70, 490)]
       (mount logs_props))))) = 0 \<and>
   \<not> fst (l_position (fst (hd (drag_sequence viewport_small logs_props (60, 480) [(70, 490)]
       (mount logs_props)))))
     \<le> fst viewport_small - fst (l_size (fst (hd (drag_sequence viewport_small logs_props
           (60, 480) [(70, 490)] (mount logs_props)))))"
  by (simp add: drag_sequence_def handleMouseDown_def handleMouseMove_def logs_props_def
      logs_window_def window_props_def mount_def viewport_small_def newWindow_def
      spread_def no_options_def Let_def resizing_a_def handleResizeStart_def props_a_def
      one_window_eq viewport_hd_def)

text \<open>
  Claim C6, as amended.  In a drag of a draggable window that is not maximized and on
  which no resize is in progress, after every pointer move the top-left corner has \<open>0 \<le> x\<close> and
  \<open>0 \<le> y\<close>; \<open>x \<le> viewportWidth - windowWidth\<close> holds whenever the window is no wider
  than the viewport, and \<open>y \<le> viewportHeight - windowHeight\<close> whenever it is no taller;
  and the step emits exactly one move notification, carrying the clamped position.
\<close>

theorem drag_stays_in_viewport:
  assumes "draggable p" "\<not> p_isMaximized p" "\<not> isResizing l"
  shows "\<forall>r \<in> set (drag_sequence vp p e0 es l).
           0 \<le> fst (l_position (fst r)) \<and> 0 \<le> snd (l_position (fst r)) \<and>
           (fst (l_size (fst r)) \<le> fst vp \<longrightarrow>
              fst (l_position (fst r)) \<le> fst vp - fst (l_size (fst r))) \<and>
           (snd (l_size (fst r)) \<le> snd vp \<longrightarrow>
              snd (l_position (fst r)) \<le> snd vp - snd (l_size (fst r))) \<and>
           snd r = [onMove (p_id p) (l_position (fst r))]"
proof -
  from assms have "isDragging (fst (handleMouseDown p e0 l))"
    "\<not> isResizing (fst (handleMouseDown p e0 l))"
    by (simp_all add: handleMouseDown_def)
  from mouse_moves_ok [OF this assms(2), of vp es] show ?thesis
    by (simp add: drag_sequence_def drag_ok_def)
qed

theorem drag_stays_in_viewport_witness:
  "draggable props_a \<and> \<not> p_isMaximized props_a \<and> \<not> isResizing (mount props_a) \<and>
   fst (l_size (mount props_a)) \<le> fst viewport_hd \<and>
   snd (l_size (mount props_a)) \<le> snd viewport_hd \<and>
   l_position (fst (hd (drag_sequence viewport_hd props_a (110, 110) [(2000, 5)]
     (mount props_a)))) = (1320, 0) \<and>
   snd (hd (drag_sequence viewport_hd props_a (110, 110) [(2000, 5)] (mount props_a)))
     = [onMove ''a'' (1320, 0)]"
proof -
  have h: "draggable props_a" "\<not> p_isMaximized props_a" "\<not> isResizing (mount props_a)"
    by (simp_all add: props_a_def window_props_def one_window_eq mount_def)
  have sz: "fst (l_size (mount props_a)) \<le> fst viewport_hd"
    "snd (l_size (mount props_a)) \<le> snd viewport_hd"
    by (simp_all add: props_a_def window_props_def one_window_eq mount_def viewport_hd_def)
  have m: "hd (drag_sequence viewport_hd props_a (110, 110) [(2000, 5)] (mount props_a))
      \<in> set (drag_sequence viewport_hd props_a (110, 110) [(2000, 5)] (mount props_a))"
    by (simp add: drag_sequence_def)
  have pos: "l_position (fst (hd (drag_sequence viewport_hd props_a (110, 110) [(2000, 5)]
     (mount props_a)))) = (1320, 0)"
    by (simp add: drag_sequence_def handleMouseDown_def handleMouseMove_def props_a_def
        window_props_def one_window_eq mount_def viewport_hd_def Let_def)
  have pid: "p_id props_a = ''a''"
    by (simp add: props_a_def window_props_def one_window_eq)
  from drag_stays_in_viewport [OF h, of viewport_hd "(110, 110)" "[(2000, 5)]"] m
  have "snd (hd (drag_sequence viewport_hd props_a (110, 110) [(2000, 5)] (mount props_a)))
     = [onMove (p_id props_a) (l_position (fst (hd (drag_sequence viewport_hd props_a
          (110, 110) [(2000, 5)] (mount props_a)))))]"
    by blast
  then have "snd (hd (drag_sequence viewport_hd props_a (110, 110) [(2000, 5)]
      (mount props_a))) = [onMove ''a'' (1320, 0)]"
    by (simp only: pos pid)
  with h sz pos show ?thesis by blast
qed

subsection \<open>The tile arrangement\<close>

lemma findIndex_nth:
  "distinct (map f xs) \<Longrightarrow> k < length xs \<Longrightarrow>
     findIndex (\<lambda>v. f v = f (xs ! k)) xs = int k"
proof (induction xs arbitrary: k)
  case Nil
  then show ?case by simp
next
  case (Cons x xs)
  show ?case
  proof (cases k)
    case 0
    then show ?thesis by simp
  next
    case (Suc j)
    with Cons.prems have j: "j < length xs" and d: "distinct (map f xs)"
      and n: "f x \<noteq> f (xs ! j)"
      by (auto simp: image_iff)
    from Cons.IH [OF d j] have "findIndex (\<lambda>v. f v = f (xs ! j)) xs = int j" .
    with Suc n show ?thesis by (simp add: Let_def)
  qed
qed

lemma tile_cols_pos: "0 < n \<Longrightarrow> 0 < tile_cols n"
  by (simp add: tile_cols_def)

lemma tile_rows_pos: "0 < n \<Longrightarrow> 0 < tile_rows n"
  using tile_cols_pos [of n] by (simp add: tile_rows_def)

lemma tile_fits: "int n \<le> tile_cols n * tile_rows n"
proof (cases "n = 0")
  case True
  then show ?thesis by (simp add: tile_cols_def tile_rows_def)
next
  case False
  then have c: "0 < real_of_int (tile_cols n)" using tile_cols_pos [of n] by simp
  have "real n / real_of_int (tile_cols n) \<le> real_of_int (tile_rows n)"
    by (simp add: tile_rows_def)
  with c have "real n \<le> real_of_int (tile_rows n) * real_of_int (tile_cols n)"
    by (simp add: pos_divide_le_eq)
  then have "real_of_int (int n) \<le> real_of_int (tile_cols n * tile_rows n)"
    by (simp add: mult.commute)
  then show ?thesis by (simp only: of_int_le_iff)
qed

lemma tile_cols_bounds:
  assumes "0 < n"
  shows "(tile_cols n - 1)\<^sup>2 < int n" "int n \<le> (tile_cols n)\<^sup>2"
proof -
  have c: "0 < tile_cols n" using assms by (rule tile_cols_pos)
  have lo: "real_of_int (tile_cols n) - 1 < sqrt (real n)"
    unfolding tile_cols_def by linarith
  have hi: "sqrt (real n) \<le> real_of_int (tile_cols n)"
    unfolding tile_cols_def by simp
  from c have "0 \<le> real_of_int (tile_cols n) - 1" by simp
  with lo have "(real_of_int (tile_cols n) - 1)\<^sup>2 < (sqrt (real n))\<^sup>2"
    by (intro power_strict_mono) simp_all
  then have "real_of_int ((tile_cols n - 1)\<^sup>2) < real_of_int (int n)" by simp
  then show "(tile_cols n - 1)\<^sup>2 < int n" by (simp only: of_int_less_iff)
  from hi have "(sqrt (real n))\<^sup>2 \<le> (real_of_int (tile_cols n))\<^sup>2"
    by (intro power_mono) simp_all
  then have "real_of_int (int n) \<le> real_of_int ((tile_cols n)\<^sup>2)" by simp
  then show "int n \<le> (tile_cols n)\<^sup>2" by (simp only: of_int_le_iff)
qed

lemma tile_rows_bounds:
  assumes "0 < n"
  shows "(tile_rows n - 1) * tile_cols n < int n" "int n \<le> tile_rows n * tile_cols n"
proof -
  have c: "0 < real_of_int (tile_cols n)" using tile_cols_pos [OF assms] by simp
  have "real_of_int (tile_rows n) - 1 < real n / real_of_int (tile_cols n)"
    unfolding tile_rows_def by linarith
  with c have "(real_of_int (tile_rows n) - 1) * real_of_int (tile_cols n) < real n"
    by (simp add: pos_less_divide_eq)
  then have "real_of_int ((tile_rows n - 1) * tile_cols n) < real_of_int (int n)" by simp
  then show "(tile_rows n - 1) * tile_cols n < int n" by (simp only: of_int_less_iff)
  show "int n \<le> tile_rows n * tile_cols n"
    using tile_fits [of n] by (simp add: mult.commute)
qed

lemma tile_cols_unique:
  "0 < c \<Longrightarrow> (c - 1)\<^sup>2 < int n \<Longrightarrow> int n \<le> c\<^sup>2 \<Longrightarrow> tile_cols n = c"
proof -
  assume c: "0 < c" and lo: "(c - 1)\<^sup>2 < int n" and hi: "int n \<le> c\<^sup>2"
  from hi have "real n \<le> (real_of_int c)\<^sup>2"
    by (metis of_int_le_iff of_int_of_nat_eq of_int_power)
  with c have 1: "sqrt (real n) \<le> real_of_int c"
    by (simp add: real_le_lsqrt)
  from lo have "(real_of_int (c - 1))\<^sup>2 < real n"
    by (metis of_int_less_iff of_int_of_nat_eq of_int_power)
  then have 2: "real_of_int c - 1 < sqrt (real n)"
    using real_less_rsqrt [of "real_of_int (c - 1)" "real n"] by simp
  from 1 2 show ?thesis
    unfolding tile_cols_def by (intro ceiling_unique) simp_all
qed

lemma visible_tile_nth:
  assumes "distinct (map id_w (windows s))" "k < length (visible s)"
  shows "visible (arrangeWindows vp tile s) ! k
           = place vp (length (visible s)) (int k) (visible s ! k)"
    and "length (visible (arrangeWindows vp tile s)) = length (visible s)"
proof -
  have pos: "0 < length (visible s)" using assms(2) by (cases "visible s") simp_all
  have raw: "windows (arrangeWindows vp tile s) = map
      (\<lambda>w. if isMinimized w then w
         else w\<lparr>position :=
                  (50 + real_of_int (findIndex (\<lambda>v. id_w v = id_w w) (visible s)
                         smod tile_cols (length (visible s)))
                        * cell_width vp (length (visible s)),
                   50 + real_of_int \<lfloor>real_of_int (findIndex (\<lambda>v. id_w v = id_w w) (visible s))
                          / real_of_int (tile_cols (length (visible s)))\<rfloor>
                        * cell_height vp (length (visible s))),
                size_w := (cell_width vp (length (visible s)) - 10,
                           cell_height vp (length (visible s)) - 10),
                isMaximized := False\<rparr>) (windows s)"
    by (simp add: arrangeWindows_def Let_def visible_def cell_width_def cell_height_def)
  have keep: "\<And>w. isMinimized
      (if isMinimized w then w
         else w\<lparr>position :=
                  (50 + real_of_int (findIndex (\<lambda>v. id_w v = id_w w) (visible s)
                         smod tile_cols (length (visible s)))
                        * cell_width vp (length (visible s)),
                   50 + real_of_int \<lfloor>real_of_int (findIndex (\<lambda>v. id_w v = id_w w) (visible s))
                          / real_of_int (tile_cols (length (visible s)))\<rfloor>
                        * cell_height vp (length (visible s))),
                size_w := (cell_width vp (length (visible s)) - 10,
                           cell_height vp (length (visible s)) - 10),
                isMaximized := False\<rparr>) = isMinimized w"
    by simp
  have vis: "visible (arrangeWindows vp tile s) = map
      (\<lambda>w. if isMinimized w then w
         else w\<lparr>position :=
                  (50 + real_of_int (findIndex (\<lambda>v. id_w v = id_w w) (visible s)
                         smod tile_cols (length (visible s)))
                        * cell_width vp (length (visible s)),
                   50 + real_of_int \<lfloor>real_of_int (findIndex (\<lambda>v. id_w v = id_w w) (visible s))
                          / real_of_int (tile_cols (length (visible s)))\<rfloor>
                        * cell_height vp (length (visible s))),
                size_w := (cell_width vp (length (visible s)) - 10,
                           cell_height vp (length (visible s)) - 10),
                isMaximized := False\<rparr>) (visible s)"
    unfolding visible_def [of "arrangeWindows vp tile s"] raw filter_map comp_def keep
    by (simp add: visible_def)
  show "length (visible (arrangeWindows vp tile s)) = length (visible s)"
    unfolding vis by simp
  have d: "distinct (map id_w (visible s))"
    using assms(1) by (simp add: visible_def distinct_map_filter)
  have fi: "findIndex (\<lambda>v. id_w v = id_w (visible s ! k)) (visible s) = int k"
    using findIndex_nth [OF d assms(2)] .
  have nm: "\<not> isMinimized (visible s ! k)"
    using nth_mem [OF assms(2)] by (simp add: visible_def)
  have c: "0 \<le> tile_cols (length (visible s))"
    using tile_cols_pos [OF pos] by simp
  have sm: "int k smod tile_cols (length (visible s)) = int k mod tile_cols (length (visible s))"
    using c by (simp add: smod_mod_positive)
  have fl: "\<lfloor>real k / real_of_int (tile_cols (length (visible s)))\<rfloor>
      = int k div tile_cols (length (visible s))"
    using floor_divide_of_int_eq [of "int k" "tile_cols (length (visible s))",
        where ?'a = real] by simp
  show "visible (arrangeWindows vp tile s) ! k
           = place vp (length (visible s)) (int k) (visible s ! k)"
    unfolding vis using assms(2) nm
    by (simp add: fi sm fl place_def)
qed

lemma axis_apart_less:
  fixes W :: real and a b :: int
  assumes "a < b"
  shows "min (50 + real_of_int a * W + (W - 10)) (50 + real_of_int b * W + (W - 10))
           - max (50 + real_of_int a * W) (50 + real_of_int b * W) < 0"
proof (cases "W \<le> 0")
  case True
  then show ?thesis by (auto simp: min_def max_def)
next
  case False
  from assms have "real_of_int a + 1 \<le> real_of_int b" by linarith
  with False have "(real_of_int a + 1) * W \<le> real_of_int b * W"
    by (intro mult_right_mono) simp_all
  then have "real_of_int a * W + W \<le> real_of_int b * W"
    by (simp add: algebra_simps)
  then show ?thesis by (auto simp: min_def max_def)
qed

lemma axis_apart:
  fixes W :: real and a b :: int
  assumes "a \<noteq> b"
  shows "min (50 + real_of_int a * W + (W - 10)) (50 + real_of_int b * W + (W - 10))
           - max (50 + real_of_int a * W) (50 + real_of_int b * W) < 0"
proof (cases "a < b")
  case True
  then show ?thesis by (rule axis_apart_less)
next
  case False
  with assms have "b < a" by simp
  from axis_apart_less [OF this, of W] show ?thesis
    by (simp add: min.commute max.commute)
qed

lemma place_apart:
  assumes "j < n" "k < n" "j \<noteq> k"
  shows "overlap_x (place vp n (int j) u) (place vp n (int k) v) < 0
       \<or> overlap_y (place vp n (int j) u) (place vp n (int k) v) < 0"
proof -
  from assms(1) have "0 < tile_cols n" by (intro tile_cols_pos) simp
  have "int j mod tile_cols n \<noteq> int k mod tile_cols n
      \<or> int j div tile_cols n \<noteq> int k div tile_cols n"
  proof (rule ccontr)
    assume "\<not> ?thesis"
    then have "int j mod tile_cols n = int k mod tile_cols n"
      "int j div tile_cols n = int k div tile_cols n" by simp_all
    then have "int j = int k"
      by (metis div_mult_mod_eq)
    with assms(3) show False by simp
  qed
  then show ?thesis
  proof
    assume "int j mod tile_cols n \<noteq> int k mod tile_cols n"
    from axis_apart [OF this, of "cell_width vp n"]
    show ?thesis by (simp add: overlap_x_def place_def)
  next
    assume "int j div tile_cols n \<noteq> int k div tile_cols n"
    from axis_apart [OF this, of "cell_height vp n"]
    show ?thesis by (simp add: overlap_y_def place_def)
  qed
qed

lemma int_div_less:
  fixes c k r :: int
  assumes "0 < c" "k < r * c"
  shows "k div c < r"
proof (rule ccontr)
  assume "\<not> k div c < r"
  then have "r \<le> k div c" by simp
  with assms(1) have "r * c \<le> (k div c) * c"
    by (intro mult_right_mono) simp_all
  moreover have "(k div c) * c + k mod c = k" by simp
  moreover have "0 \<le> k mod c" using assms(1) by simp
  ultimately show False using assms(2) by linarith
qed

lemma cell_in_grid:
  assumes "k < n"
  shows "0 \<le> int k mod tile_cols n" "int k mod tile_cols n < tile_cols n"
    "0 \<le> int k div tile_cols n" "int k div tile_cols n < tile_rows n"
proof -
  from assms have c: "0 < tile_cols n" by (intro tile_cols_pos) simp
  then show "0 \<le> int k mod tile_cols n" "int k mod tile_cols n < tile_cols n"
    by simp_all
  from c show "0 \<le> int k div tile_cols n" by (simp add: pos_imp_zdiv_nonneg_iff)
  from assms tile_fits [of n] have "int k < tile_rows n * tile_cols n"
    by (simp add: mult.commute)
  with c show "int k div tile_cols n < tile_rows n"
    by (rule int_div_less)
qed

lemma grid_covers:
  assumes "0 < n"
  shows "real_of_int (tile_cols n) * cell_width vp n = fst vp - 100"
    "real_of_int (tile_rows n) * cell_height vp n = snd vp - 150"
  using tile_cols_pos [OF assms] tile_rows_pos [OF assms]
  by (simp_all add: cell_width_def cell_height_def)

lemma tile_grid_folded:
  assumes "distinct (map id_w (windows s))"
  shows "map id_w (windows (arrangeWindows vp tile s)) = map id_w (windows s) \<and>
    length (visible (arrangeWindows vp tile s)) = length (visible s) \<and>
    (0 < length (visible s) \<longrightarrow>
       0 < tile_cols (length (visible s)) \<and>
       (tile_cols (length (visible s)) - 1)\<^sup>2 < int (length (visible s)) \<and>
       int (length (visible s)) \<le> (tile_cols (length (visible s)))\<^sup>2 \<and>
       0 < tile_rows (length (visible s)) \<and>
       (tile_rows (length (visible s)) - 1) * tile_cols (length (visible s))
         < int (length (visible s)) \<and>
       int (length (visible s))
         \<le> tile_rows (length (visible s)) * tile_cols (length (visible s)) \<and>
       real_of_int (tile_cols (length (visible s))) * cell_width vp (length (visible s))
         = fst vp - 100 \<and>
       real_of_int (tile_rows (length (visible s))) * cell_height vp (length (visible s))
         = snd vp - 150) \<and>
    (\<forall>k < length (visible s).
       visible (arrangeWindows vp tile s) ! k
         = place vp (length (visible s)) (int k) (visible s ! k) \<and>
       0 \<le> int k mod tile_cols (length (visible s)) \<and>
       int k mod tile_cols (length (visible s)) < tile_cols (length (visible s)) \<and>
       0 \<le> int k div tile_cols (length (visible s)) \<and>
       int k div tile_cols (length (visible s)) < tile_rows (length (visible s))) \<and>
    (\<forall>j < length (visible s). \<forall>k < length (visible s). j \<noteq> k \<longrightarrow>
       overlap_x (visible (arrangeWindows vp tile s) ! j)
                 (visible (arrangeWindows vp tile s) ! k) < 0 \<or>
       overlap_y (visible (arrangeWindows vp tile s) ! j)
                 (visible (arrangeWindows vp tile s) ! k) < 0)"
proof (intro conjI allI impI)
  show "map id_w (windows (arrangeWindows vp tile s)) = map id_w (windows s)"
    by (simp add: arrangeWindows_def Let_def comp_def)
  show "length (visible (arrangeWindows vp tile s)) = length (visible s)"
  proof (cases "visible s")
    case Nil
    then have "\<forall>w \<in> set (windows s). isMinimized w"
      by (simp add: visible_def filter_empty_conv)
    then have "windows (arrangeWindows vp tile s) = windows s"
      by (simp add: arrangeWindows_def Let_def map_fixed)
    then show ?thesis by (simp add: visible_def)
  next
    case (Cons w ws)
    then have "0 < length (visible s)" by simp
    from visible_tile_nth(2) [OF assms this] show ?thesis .
  qed
next
  assume n: "0 < length (visible s)"
  then show "real_of_int (tile_cols (length (visible s))) * cell_width vp (length (visible s))
         = fst vp - 100"
    "real_of_int (tile_rows (length (visible s))) * cell_height vp (length (visible s))
         = snd vp - 150"
    by (rule grid_covers)+
  from n show "0 < tile_cols (length (visible s))" by (rule tile_cols_pos)
  from n show "0 < tile_rows (length (visible s))" by (rule tile_rows_pos)
  from n show "(tile_cols (length (visible s)) - 1)\<^sup>2 < int (length (visible s))"
    "int (length (visible s)) \<le> (tile_cols (length (visible s)))\<^sup>2"
    by (rule tile_cols_bounds)+
  from n show "(tile_rows (length (visible s)) - 1) * tile_cols (length (visible s))
         < int (length (visible s))"
    "int (length (visible s))
         \<le> tile_rows (length (visible s)) * tile_cols (length (visible s))"
    by (rule tile_rows_bounds)+
next
  fix k assume k: "k < length (visible s)"
  show "visible (arrangeWindows vp tile s) ! k
         = place vp (length (visible s)) (int k) (visible s ! k)"
    using assms k by (rule visible_tile_nth(1))
  show "0 \<le> int k mod tile_cols (length (visible s))"
    "int k mod tile_cols (length (visible s)) < tile_cols (length (visible s))"
    "0 \<le> int k div tile_cols (length (visible s))"
    "int k div tile_cols (length (visible s)) < tile_rows (length (visible s))"
    using k by (rule cell_in_grid)+
next
  fix j k assume "j < length (visible s)" "k < length (visible s)" "j \<noteq> k"
  then show "overlap_x (visible (arrangeWindows vp tile s) ! j)
                 (visible (arrangeWindows vp tile s) ! k) < 0 \<or>
       overlap_y (visible (arrangeWindows vp tile s) ! j)
                 (visible (arrangeWindows vp tile s) ! k) < 0"
    using place_apart [of j "length (visible s)" k vp "visible s ! j" "visible s ! k"]
    by (simp add: visible_tile_nth(1) [OF assms])
qed

text \<open>
  Claim C7.  Let the ids be pairwise distinct and let \<open>n\<close> windows be visible, and put
  \<open>cols = \<lceil>sqrt n\<rceil>\<close>, \<open>rows = \<lceil>n / cols\<rceil>\<close>,
  \<open>windowWidth = (innerWidth - 100) / cols\<close> and
  \<open>windowHeight = (innerHeight - 150) / rows\<close>.  The tile arrangement keeps the list of
  windows and the number of visible ones.  When \<open>n > 0\<close>, \<open>cols\<close> is the positive
  integer with \<open>(cols - 1)\<^sup>2 < n \<le> cols\<^sup>2\<close>, \<open>rows\<close> the positive integer with
  \<open>(rows - 1) * cols < n \<le> rows * cols\<close>, and the \<open>cols\<close> by \<open>rows\<close> cells cover exactly
  the viewport less the margins.  The \<open>k\<close>-th visible window is the window it was, put
  at the origin of the cell in column \<open>k mod cols\<close> and row \<open>k div cols\<close>, a cell of the
  grid, with the cell's size less the gutter of 10 and its maximized flag cleared.  Two
  different visible windows then share no point: along one of the two axes their
  extents do not overlap.
\<close>

theorem tile_fills_grid:
  assumes "distinct (map id_w (windows s))"
  shows "let n = length (visible s);
             cols = \<lceil>sqrt (real n)\<rceil>;
             rows = \<lceil>real n / real_of_int cols\<rceil>;
             windowWidth = (fst vp - 100) / real_of_int cols;
             windowHeight = (snd vp - 150) / real_of_int rows;
             tiled = visible (arrangeWindows vp tile s)
         in map id_w (windows (arrangeWindows vp tile s)) = map id_w (windows s) \<and>
            length tiled = n \<and>
            (0 < n \<longrightarrow>
               0 < cols \<and> (cols - 1)\<^sup>2 < int n \<and> int n \<le> cols\<^sup>2 \<and>
               0 < rows \<and> (rows - 1) * cols < int n \<and> int n \<le> rows * cols \<and>
               real_of_int cols * windowWidth = fst vp - 100 \<and>
               real_of_int rows * windowHeight = snd vp - 150) \<and>
            (\<forall>k < n.
               tiled ! k = (visible s ! k)
                 \<lparr>position := (50 + real_of_int (int k mod cols) * windowWidth,
                                50 + real_of_int (int k div cols) * windowHeight),
                  size_w := (windowWidth - 10, windowHeight - 10),
                  isMaximized := False\<rparr> \<and>
               0 \<le> int k mod cols \<and> int k mod cols < cols \<and>
               0 \<le> int k div cols \<and> int k div cols < rows) \<and>
            (\<forall>j < n. \<forall>k < n. j \<noteq> k \<longrightarrow>
               overlap_x (tiled ! j) (tiled ! k) < 0 \<or>
               overlap_y (tiled ! j) (tiled ! k) < 0)"
  using tile_grid_folded [OF assms, of vp]
  unfolding Let_def place_def cell_width_def cell_height_def tile_rows_def tile_cols_def .

theorem tile_fills_grid_witness:
  "distinct (map id_w (windows three_windows)) \<and>
   length (visible three_windows) = 3 \<and>
   \<lceil>sqrt (real 3)\<rceil> = 2 \<and>
   position (visible (arrangeWindows viewport_hd tile three_windows) ! 1) = (960, 50) \<and>
   position (visible (arrangeWindows viewport_hd tile three_windows) ! 2) = (50, 515) \<and>
   size_w (visible (arrangeWindows viewport_hd tile three_windows) ! 2) = (900, 455) \<and>
   (overlap_x (visible (arrangeWindows viewport_hd tile three_windows) ! 0)
              (visible (arrangeWindows viewport_hd tile three_windows) ! 2) < 0 \<or>
    overlap_y (visible (arrangeWindows viewport_hd tile three_windows) ! 0)
              (visible (arrangeWindows viewport_hd tile three_windows) ! 2) < 0)"
proof -
  have d: "distinct (map id_w (windows three_windows))"
    by (simp add: three_windows_eq)
  have n: "length (visible three_windows) = 3"
    by (simp add: visible_def three_windows_eq)
  have "tile_cols 3 = 2"
    by (rule tile_cols_unique) simp_all
  then have c: "\<lceil>sqrt (real 3)\<rceil> = 2"
    by (simp only: tile_cols_def)
  have r: "\<lceil>real 3 / real_of_int 2\<rceil> = (2::int)"
    by (simp add: ceiling_unique)
  note t = tile_fills_grid [OF d, of viewport_hd, unfolded Let_def n c r]
  from t have p: "\<And>k. k < 3 \<Longrightarrow>
      visible (arrangeWindows viewport_hd tile three_windows) ! k = (visible three_windows ! k)
        \<lparr>position := (50 + real_of_int (int k mod 2) * ((fst viewport_hd - 100) / real_of_int 2),
                       50 + real_of_int (int k div 2) * ((snd viewport_hd - 150) / real_of_int 2)),
         size_w := ((fst viewport_hd - 100) / real_of_int 2 - 10,
                    (snd viewport_hd - 150) / real_of_int 2 - 10),
         isMaximized := False\<rparr>"
    by blast
  have "position (visible (arrangeWindows viewport_hd tile three_windows) ! 1) = (960, 50)"
    "position (visible (arrangeWindows viewport_hd tile three_windows) ! 2) = (50, 515)"
    "size_w (visible (arrangeWindows viewport_hd tile three_windows) ! 2) = (900, 455)"
    using p [of 1] p [of 2] by (simp_all add: viewport_hd_def)
  moreover from t have ov: "\<And>j k. j < 3 \<Longrightarrow> k < 3 \<Longrightarrow> j \<noteq> k \<Longrightarrow>
     overlap_x (visible (arrangeWindows viewport_hd tile three_windows) ! j)
               (visible (arrangeWindows viewport_hd tile three_windows) ! k) < 0 \<or>
     overlap_y (visible (arrangeWindows viewport_hd tile three_windows) ! j)
               (visible (arrangeWindows viewport_hd tile three_windows) ! k) < 0"
    by blast
  have
    "overlap_x (visible (arrangeWindows viewport_hd tile three_windows) ! 0)
               (visible (arrangeWindows viewport_hd tile three_windows) ! 2) < 0 \<or>
     overlap_y (visible (arrangeWindows viewport_hd tile three_windows) ! 0)
               (visible (arrangeWindows viewport_hd tile three_windows) ! 2) < 0"
    by (rule ov) simp_all
  ultimately show ?thesis using d n c by blast
qed

subsection \<open>Minimized windows under an arrangement\<close>

text \<open>
  Claim C5, evaluated: of three default windows \<open>a\<close>, \<open>b\<close>, \<open>c\<close> with \<open>b\<close> minimized,
  the stored position of \<open>b\<close> is \<open>(130, 130)\<close> and its size \<open>600 \<times> 400\<close>; the cascade
  arrangement moves it to \<open>(80, 80)\<close>, and the stack arrangement to \<open>(100, 100)\<close> with
  size \<open>800 \<times> 600\<close>, although it is minimized.  The tile arrangement leaves it alone.
\<close>

theorem arrangement_overwrites_minimized:
  "id_w (windows b_minimized ! 1) = ''b'' \<and>
   isMinimized (windows b_minimized ! 1) \<and>
   position (windows b_minimized ! 1) = (130, 130) \<and>
   size_w (windows b_minimized ! 1) = (600, 400) \<and>
   position (windows (arrangeWindows viewport_hd cascade b_minimized) ! 1) = (80, 80) \<and>
   position (windows (arrangeWindows viewport_hd stack b_minimized) ! 1) = (100, 100) \<and>
   size_w (windows (arrangeWindows viewport_hd stack b_minimized) ! 1) = (800, 600) \<and>
   windows (arrangeWindows viewport_hd tile b_minimized) ! 1 = windows b_minimized ! 1"
  by (simp add: b_minimized_def createWindow_def createWindow_at_def newWindow_def
      spread_def no_options_def initial_def minimizeWindow_def arrangeWindows_def Let_def)

subsection \<open>Applying a layout preset\<close>

text \<open>
  Claim C8, evaluated: the \<open>Development\<close> preset applied to the empty manager, whatever
  ids are generated, gives three windows that all have \<open>zIndex\<close> 1, while the counter
  goes to 4.
\<close>

theorem preset_repeats_zIndex:
  "map title (windows (applyLayoutPreset placeholder gen Development initial))
     = [''Code Editor'', ''Terminal'', ''Globe''] \<and>
   map zIndex (windows (applyLayoutPreset placeholder gen Development initial)) = [1, 1, 1] \<and>
   nextZIndex (applyLayoutPreset placeholder gen Development initial) = 4"
  by (simp add: applyLayoutPreset_def applyLayoutPreset_timeout_def
      applyLayoutPreset_clear_def Development_def preset_entry_def preset_title_def
      createWindow_at_def newWindow_def spread_def no_options_def initial_def Let_def)

subsection \<open>Stored and rendered geometry\<close>

text \<open>
  Claim C2, evaluated: one default window is created and rendered, at \<open>(100, 100)\<close>.
  The cascade arrangement stores position \<open>(50, 50)\<close> for it; the next render still
  draws it at \<open>(100, 100)\<close>, since the mounted window keeps its own position state.
\<close>

theorem cascade_not_rendered:
  "rendered_style viewport_hd (one_window ()) mounted_one ''a''
     = Some (box (100, 100) (600, 400) 1) \<and>
   position (hd (windows (arrangeWindows viewport_hd cascade (one_window ())))) = (50, 50) \<and>
   rendered_style viewport_hd (arrangeWindows viewport_hd cascade (one_window ()))
     (render_windows viewport_hd (arrangeWindows viewport_hd cascade (one_window ()))
        mounted_one) ''a''
     = Some (box (100, 100) (600, 400) 1)"
  by (simp add: mounted_one_def one_window_eq arrangeWindows_def
      rendered_style_def render_windows_def rendered_window_def window_props_def
      mount_def ResizableWindow_def windowStyle_def)

subsection \<open>Resizing from the top and left\<close>

text \<open>
  Claim C3, evaluated on a window at \<open>(100, 100)\<close> of size \<open>600 \<times> 400\<close>, whose
  bottom-right corner is \<open>(700, 500)\<close>.  Grabbed on the top-left handle at
  \<open>(101, 101)\<close> and moved by \<open>(10, 10)\<close>, it gets size \<open>590 \<times> 390\<close> at position
  \<open>(111, 111)\<close>: the position moved by 11 and the corner is at \<open>(701, 501)\<close>.  Grabbed on
  the left handle exactly at \<open>x = 100\<close> and moved to \<open>x = 500\<close>, the width stops at the
  minimum 300 while the position goes to \<open>x = 500\<close>: the right edge is at 800.
\<close>

theorem resize_moves_opposite_edge:
  "l_position (mount props_a) = (100, 100) \<and> l_size (mount props_a) = (600, 400) \<and>
   l_position (fst (hd (resize_sequence viewport_hd props_a (101, 101) ''top-left''
     [(111, 111)] (mount props_a)))) = (111, 111) \<and>
   l_size (fst (hd (resize_sequence viewport_hd props_a (101, 101) ''top-left''
     [(111, 111)] (mount props_a)))) = (590, 390) \<and>
   l_position (fst (hd (resize_sequence viewport_hd props_a (100, 300) ''left''
     [(500, 300)] (mount props_a)))) = (500, 100) \<and>
   l_size (fst (hd (resize_sequence viewport_hd props_a (100, 300) ''left''
     [(500, 300)] (mount props_a)))) = (300, 400)"
  by (simp add: props_a_def one_window_eq window_props_def mount_def resize_sequence_def
      handleResizeStart_def handleMouseMove_def viewport_hd_def)

end
